theory Spec2Isabelle
  imports Complex_Main
begin

text \<open>
  A model of the agent of the EAG-V2 repository: the memory scorer
  (Week-9/modules/historical\_index.py), the code sandbox with its checks
  (Week-9/modules/heuristics\_code.py and action.py), the parser of the decision module
  (Week-10/decision/decision.py) and the control loop (Week-10/agent/agent\_loop2.py).
  The definitions come first, then their properties. What the program takes from outside
  (the clock, the parser and interpreter of Python, the JSON library, the language model
  and the tools) is a parameter of the definitions.
\<close>

section \<open>Strings\<close>

text \<open>
  Python strings are modelled as \<open>string\<close> (a list of 8-bit characters), one \<open>char\<close> per
  code point. The character classes below are the ASCII part of Python's Unicode classes,
  with the two spaces U+0085 and U+00A0; the other characters from 128 on are left
  unchanged by \<open>lower\<close> and are no word characters.
\<close>

definition lower_table :: "(char \<times> char) list" where
  "lower_table =
    [(CHR ''A'', CHR ''a''), (CHR ''B'', CHR ''b''), (CHR ''C'', CHR ''c''), (CHR ''D'', CHR ''d''),
     (CHR ''E'', CHR ''e''), (CHR ''F'', CHR ''f''), (CHR ''G'', CHR ''g''), (CHR ''H'', CHR ''h''),
     (CHR ''I'', CHR ''i''), (CHR ''J'', CHR ''j''), (CHR ''K'', CHR ''k''), (CHR ''L'', CHR ''l''),
     (CHR ''M'', CHR ''m''), (CHR ''N'', CHR ''n''), (CHR ''O'', CHR ''o''), (CHR ''P'', CHR ''p''),
     (CHR ''Q'', CHR ''q''), (CHR ''R'', CHR ''r''), (CHR ''S'', CHR ''s''), (CHR ''T'', CHR ''t''),
     (CHR ''U'', CHR ''u''), (CHR ''V'', CHR ''v''), (CHR ''W'', CHR ''w''), (CHR ''X'', CHR ''x''),
     (CHR ''Y'', CHR ''y''), (CHR ''Z'', CHR ''z'')]"

definition lower_char :: "char \<Rightarrow> char" where
  "lower_char c = (case map_of lower_table c of Some l \<Rightarrow> l | None \<Rightarrow> c)"

definition lower :: "string \<Rightarrow> string" where
  \<comment> \<open>\<open>s.lower()\<close>\<close>
  "lower s = map lower_char s"

definition is_word_char :: "char \<Rightarrow> bool" where
  \<comment> \<open>the regular expression class \<open>\w\<close>\<close>
  "is_word_char c =
     (c \<in> set ''abcdefghijklmnopqrstuvwxyzABCDEFGHIJKLMNOPQRSTUVWXYZ0123456789_'')"

definition is_space :: "char \<Rightarrow> bool" where
  \<comment> \<open>the regular expression class \<open>\s\<close> and \<open>str.isspace\<close>: tab, newline, VT, FF, CR, FS, GS,
      RS, US, space, NEL, no-break space\<close>
  "is_space c =
     (c \<in> set [CHR 0x09, CHR 0x0A, CHR 0x0B, CHR 0x0C, CHR 0x0D,
                CHR 0x1C, CHR 0x1D, CHR 0x1E, CHR 0x1F, CHR 0x20, CHR 0x85, CHR 0xA0])"

fun str_join :: "string \<Rightarrow> string list \<Rightarrow> string" where
  \<comment> \<open>\<open>sep.join(xs)\<close>\<close>
  "str_join sep [] = []"
| "str_join sep [x] = x"
| "str_join sep (x # y # ys) = x @ sep @ str_join sep (y # ys)"

definition strip :: "string \<Rightarrow> string" where
  \<comment> \<open>\<open>s.strip()\<close>\<close>
  "strip s = rev (dropWhile is_space (rev (dropWhile is_space s)))"

section \<open>Python exceptions\<close>

text \<open>
  The exceptions the modelled code raises or catches. \<open>BaseOnly\<close> stands for an exception
  that derives from \<open>BaseException\<close> but not from \<open>Exception\<close> (\<open>SystemExit\<close>,
  \<open>KeyboardInterrupt\<close>, \<open>asyncio.CancelledError\<close>); every other constructor is a subclass
  of \<open>Exception\<close>. The string is the message, \<open>str(e)\<close>. \<open>Unprintable e\<close> is an exception
  derived from \<open>Exception\<close> whose own \<open>str\<close> raises \<open>e\<close> (a \<open>__str__\<close> that raises, or an
  argument nested so deep that formatting it ends in \<open>RecursionError\<close>).
\<close>

datatype py_exc =
    TimeoutError
  | ValueError string
  | RuntimeError string
  | TypeError string
  | SyntaxError string
  | OtherException string
  | BaseOnly string
  | Unprintable py_exc

fun is_Exception :: "py_exc \<Rightarrow> bool" where
  \<comment> \<open>\<open>isinstance(e, Exception)\<close>\<close>
  "is_Exception (BaseOnly _) = False"
| "is_Exception _ = True"

fun str_exc :: "py_exc \<Rightarrow> py_exc + string" where
  \<comment> \<open>\<open>str(e)\<close>: the message, or the exception that forming it raises\<close>
  "str_exc TimeoutError = Inr []"
| "str_exc (ValueError m) = Inr m"
| "str_exc (RuntimeError m) = Inr m"
| "str_exc (TypeError m) = Inr m"
| "str_exc (SyntaxError m) = Inr m"
| "str_exc (OtherException m) = Inr m"
| "str_exc (BaseOnly m) = Inr m"
| "str_exc (Unprintable e) = Inl e"

section \<open>Week-9/modules/historical\_index.py\<close>

subsection \<open>Records of the historical store\<close>

text \<open>
  A record of the store is a JSON object. A key is absent (\<open>Missing\<close>), \<open>null\<close>
  (\<open>Null\<close>) or holds a value. The timestamp is a string or a number: the scorer
  handles both.
\<close>

datatype 'a field = Missing | Null | Val 'a

datatype ts_val = TStr string | TNum real

record history_item =
  timestamp :: "ts_val field"
  user :: "string field"
  assistant :: "string field"
  tool :: "string field"
  success :: "bool field"
  result :: "string field"

text \<open>\<open>f"{item.get(key, default)}"\<close> on a string field: \<open>None\<close> prints as \<open>None\<close>.\<close>

definition get_str :: "string field \<Rightarrow> string \<Rightarrow> string" where
  "get_str f d = (case f of Missing \<Rightarrow> d | Null \<Rightarrow> ''None'' | Val s \<Rightarrow> s)"

text \<open>Python truthiness of \<open>item.get(key)\<close>.\<close>

definition truthy_str :: "string field \<Rightarrow> bool" where
  "truthy_str f = (case f of Val s \<Rightarrow> s \<noteq> [] | _ \<Rightarrow> False)"

definition truthy_bool :: "bool field \<Rightarrow> bool" where
  "truthy_bool f = (case f of Val b \<Rightarrow> b | _ \<Rightarrow> False)"

definition truthy_ts :: "ts_val field \<Rightarrow> bool" where
  "truthy_ts f = (case f of Val (TStr s) \<Rightarrow> s \<noteq> [] | Val (TNum r) \<Rightarrow> r \<noteq> 0 | _ \<Rightarrow> False)"

subsection \<open>extract\_query\_terms\<close>

text \<open>\<open>re.findall(r'\b\w+\b', s)\<close>: the maximal runs of word characters, left to right.\<close>

fun word_runs :: "string \<Rightarrow> string \<Rightarrow> string list" where
  "word_runs cur [] = (if cur = [] then [] else [cur])"
| "word_runs cur (c # cs) =
     (if is_word_char c then word_runs (cur @ [c]) cs
      else if cur = [] then word_runs [] cs
      else cur # word_runs [] cs)"

definition stop_words :: "string set" where
  "stop_words = set
    [''the'', ''a'', ''an'', ''and'', ''or'', ''but'', ''in'', ''on'', ''at'', ''to'', ''for'',
     ''of'', ''with'', ''by'', ''from'', ''as'', ''is'', ''was'', ''are'', ''were'', ''be'',
     ''been'', ''being'', ''have'', ''has'', ''had'', ''do'', ''does'', ''did'', ''will'',
     ''would'', ''should'', ''could'', ''may'', ''might'', ''must'', ''can'', ''this'',
     ''that'', ''these'', ''those'', ''i'', ''you'', ''he'', ''she'', ''it'', ''we'', ''they'']"

definition extract_query_terms :: "string \<Rightarrow> string list" where
  "extract_query_terms user_input =
     filter (\<lambda>t. t \<notin> stop_words \<and> length t > 2) (word_runs [] (lower user_input))"

subsection \<open>simple\_cosine\_similarity\<close>

definition simple_cosine_similarity :: "string \<Rightarrow> string \<Rightarrow> real" where
  "simple_cosine_similarity text1 text2 =
     (let words1 = set (extract_query_terms text1);
          words2 = set (extract_query_terms text2)
      in if words1 = {} \<or> words2 = {} then 0
         else (let intersection = words1 \<inter> words2;
                   union = words1 \<union> words2
               in if union \<noteq> {} then real (card intersection) / real (card union) else 0))"

subsection \<open>calculate\_historical\_score\<close>

text \<open>
  \<open>datetime.fromisoformat(s).timestamp()\<close> is a parameter \<open>fromiso\<close>: the POSIX time of
  an ISO string, or \<open>None\<close> where it raises. Scores are real numbers.
\<close>

definition item_text_of :: "history_item \<Rightarrow> string" where
  \<comment> \<open>\<open>f"{item.get('user', '')} {item.get('assistant', '')}".lower()\<close>\<close>
  "item_text_of item = lower (get_str (user item) [] @ '' '' @ get_str (assistant item) [])"

text \<open>
  The body of the \<open>try\<close> block up to \<open>age_hours\<close>: \<open>None\<close> where it raises (no timestamp,
  \<open>null\<close>, or a string that does not parse). Scores are real numbers, so \<open>exp\<close> never
  overflows; Python's \<open>math.exp\<close> does for an age far enough in the future, and the
  handler then gives 0.05 as well. The properties below are about ages that are not
  negative.
\<close>

definition age_hours :: "(string \<Rightarrow> real option) \<Rightarrow> history_item \<Rightarrow> real \<Rightarrow> real option" where
  "age_hours fromiso item current_time =
     (case timestamp item of
        Missing \<Rightarrow> map_option (\<lambda>item_time. (current_time - item_time) / 3600) (fromiso [])
      | Null \<Rightarrow> None
      | Val (TStr s) \<Rightarrow> map_option (\<lambda>item_time. (current_time - item_time) / 3600) (fromiso s)
      | Val (TNum r) \<Rightarrow> Some ((current_time - r) / 3600))"

definition recency_score :: "(string \<Rightarrow> real option) \<Rightarrow> history_item \<Rightarrow> real \<Rightarrow> real" where
  "recency_score fromiso item current_time =
     (case age_hours fromiso item current_time of
        Some age \<Rightarrow> exp (- age / 168) * 0.30
      | None \<Rightarrow> 0.05)"

definition tool_success_score :: "history_item \<Rightarrow> real" where
  "tool_success_score item =
     (if truthy_bool (success item) \<and> truthy_str (tool item) then 0.15
      else if truthy_str (tool item) then 0.05
      else 0)"

definition provenance_score :: "history_item \<Rightarrow> real" where
  "provenance_score item =
     (if truthy_ts (timestamp item) then 0.03 else 0)
     + (if truthy_str (tool item) then 0.04 else 0)
     + (if truthy_str (result item) then 0.03 else 0)"

definition length_score :: "history_item \<Rightarrow> real" where
  "length_score item =
     (let text_length = length (item_text_of item)
      in if text_length < 200 then 0.10
         else if text_length < 500 then 0.07
         else if text_length < 1000 then 0.04
         else 0.01)"

definition is_diverse :: "history_item \<Rightarrow> string set \<Rightarrow> bool" where
  "is_diverse item seen_texts =
     (\<forall>seen_text \<in> seen_texts. \<not> simple_cosine_similarity (item_text_of item) seen_text > 0.8)"

definition calculate_historical_score ::
  "(string \<Rightarrow> real option) \<Rightarrow> history_item \<Rightarrow> string list \<Rightarrow> real \<Rightarrow> string set \<Rightarrow> real" where
  "calculate_historical_score fromiso item query_terms current_time seen_texts =
     recency_score fromiso item current_time
     + simple_cosine_similarity (str_join '' '' query_terms) (item_text_of item) * 0.30
     + tool_success_score item
     + provenance_score item
     + length_score item
     + (if is_diverse item seen_texts then 0.05 else 0)"

subsection \<open>compress\_to\_bullets\<close>








subsection \<open>get\_historical\_context\<close>





subsection \<open>Definitions used to state the properties\<close>

text \<open>
  The line boundaries of \<open>str.splitlines\<close> among the characters below 256; the line feed,
  with which \<open>compress_to_bullets\<close> joins the bullets, is the first. \<open>line_count\<close> is one
  more than the number of boundaries in a text: the number of its lines, when no line is
  empty. A field is on one line when it holds no text or a text without a boundary.
\<close>

definition is_line_break :: "char \<Rightarrow> bool" where
  "is_line_break c =
     (c \<in> set [CHR 0x0A, CHR 0x0B, CHR 0x0C, CHR 0x0D, CHR 0x1C, CHR 0x1D, CHR 0x1E, CHR 0x85])"


definition single_line :: "string \<Rightarrow> bool" where
  "single_line s = (filter is_line_break s = [])"





section \<open>Week-9/modules/heuristics\_code.py\<close>

subsection \<open>Heuristic 3: the unsafe-pattern filter\<close>

text \<open>
  The regular expressions of \<open>UNSAFE_PATTERNS\<close> use literals and \<open>+\<close> on a single
  character or on \<open>\s\<close>. A pattern is a list of items; \<open>re.search\<close> with
  \<open>re.IGNORECASE\<close> tries every start position and every length of each \<open>+\<close>.
\<close>

datatype atom = AChr char | ASpace

datatype item = One atom | Many1 atom

fun atom_ok :: "atom \<Rightarrow> char \<Rightarrow> bool" where
  "atom_ok (AChr c) d = (lower_char d = lower_char c)"
| "atom_ok ASpace d = is_space d"

fun match_here :: "item list \<Rightarrow> string \<Rightarrow> bool" where
  "match_here [] s = True"
| "match_here (One a # p) [] = False"
| "match_here (One a # p) (c # s) = (atom_ok a c \<and> match_here p s)"
| "match_here (Many1 a # p) [] = False"
| "match_here (Many1 a # p) (c # s) =
     (atom_ok a c \<and> (match_here p s \<or> match_here (Many1 a # p) s))"

fun re_search :: "item list \<Rightarrow> string \<Rightarrow> bool" where
  "re_search p [] = match_here p []"
| "re_search p (c # s) = (match_here p (c # s) \<or> re_search p s)"

definition lit :: "string \<Rightarrow> item list" where
  "lit s = map (\<lambda>c. One (AChr c)) s"

definition UNSAFE_PATTERNS :: "item list list" where
  "UNSAFE_PATTERNS =
    [lit ''..'' @ [Many1 (AChr CHR ''/'')],
     lit ''<script'',
     lit ''</script'',
     lit ''delete'' @ [Many1 ASpace] @ lit ''from'',
     lit ''drop'' @ [Many1 ASpace] @ lit ''table'',
     lit ''rm'' @ [Many1 ASpace] @ lit ''-rf'',
     lit ''eval('',
     lit ''exec('',
     lit ''__import__'',
     lit ''system('',
     lit ''popen('']"

definition contains_unsafe_arguments :: "string \<Rightarrow> bool" where
  "contains_unsafe_arguments code =
     (let code_lower = lower code in list_ex (\<lambda>pattern. re_search pattern code_lower) UNSAFE_PATTERNS)"

subsection \<open>Heuristics 5 and 7: tool diversity and repeats\<close>

text \<open>
  \<open>re.findall(r'mcp\.call_tool\([\'"](\w+)[\'"]', code)\<close>: the tool names of the
  non-overlapping matches, left to right. \<open>match_call_tool\<close> matches at the head of the
  string and gives the name and the length of the match.
\<close>

definition is_quote :: "char \<Rightarrow> bool" where
  "is_quote c = (c = CHR 0x27 \<or> c = CHR 0x22)"

definition match_call_tool :: "string \<Rightarrow> (string \<times> nat) option" where
  "match_call_tool s =
     (let pre = ''mcp.call_tool(''
      in if take (length pre) s \<noteq> pre then None
         else (case drop (length pre) s of
                 [] \<Rightarrow> None
               | q # rest \<Rightarrow>
                   if \<not> is_quote q then None
                   else (let name = takeWhile is_word_char rest
                         in if name = [] then None
                            else (case dropWhile is_word_char rest of
                                    [] \<Rightarrow> None
                                  | q' # _ \<Rightarrow>
                                      if is_quote q' then Some (name, length pre + 1 + length name + 1)
                                      else None))))"

fun findall_tools :: "nat \<Rightarrow> string \<Rightarrow> string list" where
  \<comment> \<open>the first argument counts the characters of the last match still to skip\<close>
  "findall_tools k [] = []"
| "findall_tools (Suc k) (c # s) = findall_tools k s"
| "findall_tools 0 (c # s) =
     (case match_call_tool (c # s) of
        Some (name, n) \<Rightarrow> name # findall_tools (n - 1) s
      | None \<Rightarrow> findall_tools 0 s)"

definition count_distinct_tools :: "string \<Rightarrow> nat" where
  "count_distinct_tools code = card (set (findall_tools 0 code))"

definition exceeds_tool_diversity_limit :: "string \<Rightarrow> nat \<Rightarrow> bool" where
  "exceeds_tool_diversity_limit code max_tools = (count_distinct_tools code > max_tools)"

definition has_excessive_repeats :: "string \<Rightarrow> nat \<Rightarrow> bool" where
  "has_excessive_repeats code max_repeats =
     (let matches = findall_tools 0 code
      in list_ex (\<lambda>name. count_list matches name > max_repeats) matches)"

subsection \<open>Heuristic 10: the AST linter\<close>

text \<open>
  The syntax tree of Python's \<open>ast\<close> module, with the node classes the linter tells
  apart. Every other class is \<open>Other\<close>, with its child nodes in field order. A \<open>Call\<close>
  holds the called expression and the arguments; a function or class definition holds its
  name and its child nodes (arguments, body, decorators).
\<close>

datatype node =
    Module "node list"
  | FunctionDef string "node list"
  | AsyncFunctionDef string "node list"
  | ClassDef string "node list"
  | Import
  | ImportFrom
  | Call node "node list"
  | Name string
  | While "node list"
  | Break
  | Other "node list"

fun walk :: "node \<Rightarrow> node list" where
  \<comment> \<open>\<open>ast.walk(node)\<close>: the node and all its descendants\<close>
  "walk (Module cs) = Module cs # concat (map walk cs)"
| "walk (FunctionDef name cs) = FunctionDef name cs # concat (map walk cs)"
| "walk (AsyncFunctionDef name cs) = AsyncFunctionDef name cs # concat (map walk cs)"
| "walk (ClassDef name cs) = ClassDef name cs # concat (map walk cs)"
| "walk Import = [Import]"
| "walk ImportFrom = [ImportFrom]"
| "walk (Call f args) = Call f args # concat (map walk (f # args))"
| "walk (Name x) = [Name x]"
| "walk (While cs) = While cs # concat (map walk cs)"
| "walk Break = [Break]"
| "walk (Other cs) = Other cs # concat (map walk cs)"

record linter =
  errors :: "string list"
  in_solve :: bool

definition add_error :: "string \<Rightarrow> linter \<Rightarrow> linter" where
  "add_error msg l = l\<lparr>errors := errors l @ [msg]\<rparr>"

definition dangerous :: "string list" where
  "dangerous = [''eval'', ''exec'', ''compile'', ''__import__'', ''open'', ''system'']"

text \<open>
  \<open>NodeVisitor.visit\<close>: a class with a \<open>visit_\<close> method is handled by it, every other
  class by \<open>generic_visit\<close>, which visits the child nodes in order.
\<close>

fun visit :: "node \<Rightarrow> linter \<Rightarrow> linter" where
  "visit (FunctionDef name cs) l =
     (if name = ''solve'' then (fold visit cs (l\<lparr>in_solve := True\<rparr>))\<lparr>in_solve := False\<rparr>
      else if in_solve l then add_error (''Nested function definition not allowed: '' @ name) l
      else l)"
| "visit Import l =
     (if in_solve l then add_error ''Import statements not allowed in solve()'' l else l)"
| "visit ImportFrom l =
     (if in_solve l then add_error ''Import statements not allowed in solve()'' l else l)"
| "visit (ClassDef name cs) l =
     (if in_solve l then add_error (''Class definitions not allowed: '' @ name) l else l)"
| "visit (Call f args) l =
     fold visit (f # args)
       (if in_solve l
        then (case f of
                Name ident \<Rightarrow>
                  if ident \<in> set dangerous
                  then add_error (''Dangerous function call not allowed: '' @ ident) l
                  else l
              | _ \<Rightarrow> l)
        else l)"
| "visit (While cs) l =
     fold visit cs
       (if in_solve l
        then (if \<not> list_ex (\<lambda>n. n = Break) (walk (While cs))
              then add_error ''While loop without break statement (potential infinite loop)'' l
              else l)
        else l)"
| "visit (Module cs) l = fold visit cs l"
| "visit (AsyncFunctionDef name cs) l = fold visit cs l"
| "visit (Name x) l = l"
| "visit Break l = l"
| "visit (Other cs) l = fold visit cs l"

text \<open>
  \<open>ast.parse\<close> is a parameter: it gives the tree, or raises \<open>SyntaxError\<close> or another
  exception (a \<open>ValueError\<close> on a null byte, a \<open>RecursionError\<close>).
\<close>

datatype parse_result = Parsed node | ParseSyntaxError string | ParseOtherError string

definition lint_solve_function :: "(string \<Rightarrow> parse_result) \<Rightarrow> string \<Rightarrow> bool \<times> string list" where
  "lint_solve_function ast_parse code =
     (case ast_parse code of
        Parsed tree \<Rightarrow>
          (let l = visit tree \<lparr>errors = [], in_solve = False\<rparr>
           in if errors l \<noteq> [] then (False, errors l) else (True, []))
      | ParseSyntaxError m \<Rightarrow> (False, [''Syntax error: '' @ m])
      | ParseOtherError m \<Rightarrow> (False, [''AST parsing error: '' @ m]))"

subsection \<open>validate\_solve\_code\<close>

definition validate_solve_code :: "(string \<Rightarrow> parse_result) \<Rightarrow> string \<Rightarrow> bool \<times> string list" where
  "validate_solve_code ast_parse code =
     (let errors1 = (if contains_unsafe_arguments code then [''Code contains unsafe patterns''] else []);
          errors2 = errors1 @ (if exceeds_tool_diversity_limit code 3
                               then [''Code uses more than 3 distinct tools''] else []);
          errors3 = errors2 @ (if has_excessive_repeats code 2
                               then [''Code calls the same tool more than 2 times''] else []);
          (is_valid, ast_errors) = lint_solve_function ast_parse code;
          errors4 = errors3 @ (if \<not> is_valid then ast_errors else [])
      in (length errors4 = 0, errors4))"

subsection \<open>Definitions used to state the properties of the linter\<close>

text \<open>
  The number of top-level routines named \<open>solve\<close> that a module defines, as the
  specification counts them.
\<close>

fun is_solve_def :: "node \<Rightarrow> bool" where
  "is_solve_def (FunctionDef name cs) = (name = ''solve'')"
| "is_solve_def (AsyncFunctionDef name cs) = (name = ''solve'')"
| "is_solve_def _ = False"

definition top_level_solves :: "node \<Rightarrow> nat" where
  "top_level_solves tree = (case tree of Module stmts \<Rightarrow> length (filter is_solve_def stmts) | _ \<Rightarrow> 0)"

text \<open>
  The constructs the linter reports inside \<open>solve\<close>: a synchronous function definition
  under another name, a class definition, an import, a call by name of a dangerous
  function, a \<open>while\<close> loop with no \<open>break\<close> anywhere beneath it. A function named
  \<open>solve\<close> defined inside \<open>solve\<close> is not among them.
\<close>

definition flagged :: "node \<Rightarrow> bool" where
  "flagged n =
     (case n of
        FunctionDef name cs \<Rightarrow> name \<noteq> ''solve''
      | ClassDef name cs \<Rightarrow> True
      | Import \<Rightarrow> True
      | ImportFrom \<Rightarrow> True
      | Call f args \<Rightarrow> (case f of Name ident \<Rightarrow> ident \<in> set dangerous | _ \<Rightarrow> False)
      | While cs \<Rightarrow> \<not> list_ex (\<lambda>m. m = Break) (walk (While cs))
      | _ \<Rightarrow> False)"

definition nested_solve :: "node \<Rightarrow> bool" where
  "nested_solve n = (case n of FunctionDef name cs \<Rightarrow> name = ''solve'' | _ \<Rightarrow> False)"

section \<open>Week-9/modules/action.py\<close>

subsection \<open>Python values and the behaviour of a plan\<close>

text \<open>
  The values a plan returns and passes to tools: a dictionary with string keys, a list, or
  any other object, told apart by a label.
\<close>

datatype py_value = PyDict "(string \<times> py_value) list" | PyList "py_value list" | PyObj string

text \<open>
  What the call of \<open>solve()\<close> does, as seen from the sandbox: it returns, raises, never
  finishes (suspended at an \<open>await\<close>, or looping without one), or calls
  \<open>mcp.call_tool(tool_name, input_dict)\<close> and goes on with what the call gave: a result,
  or the exception it raised, which the plan may handle or let pass. The plan holds the
  handle \<open>mcp\<close> itself, an ordinary object: it can also assign \<open>mcp.call_count\<close>, and it can
  call the real dispatcher, \<open>mcp.dispatcher.call_tool\<close>, without going through the handle.
\<close>

datatype prog =
    Return py_value
  | Raise py_exc
  | AwaitForever
  | LoopForever
  | CallTool string py_value "py_exc + py_value \<Rightarrow> prog"
  | SetCallCount nat prog
  | CallDispatcher string py_value "py_exc + py_value \<Rightarrow> prog"

text \<open>
  \<open>exec(compile(code, ...), sandbox.__dict__)\<close> followed by
  \<open>sandbox.__dict__.get("solve")\<close>: the module code raises, never finishes, defines no
  \<open>solve\<close>, or defines one (a coroutine function or not). What the module code itself does
  to the handle before \<open>solve\<close> is called is counted with the tree of \<open>solve\<close>, as its
  first nodes.
\<close>

datatype exec_result = ExecRaises py_exc | ExecHangs | NoSolve | Solve bool prog

text \<open>
  The environment of the sandbox: the parser, the interpreter, \<open>str\<close> and \<open>json.dumps\<close>
  (each may raise), and \<open>clean_output_structure\<close> of heuristics\_code.py, a function
  from text to text of which nothing more is needed here.
\<close>

record py_env =
  ast_parse :: "string \<Rightarrow> parse_result"
  exec_plan :: "string \<Rightarrow> exec_result"
  py_str :: "py_value \<Rightarrow> py_exc + string"
  json_dumps :: "py_value \<Rightarrow> py_exc + string"
  clean_output_structure :: "string \<Rightarrow> string"

type_synonym dispatcher = "string \<Rightarrow> py_value \<Rightarrow> py_exc + py_value"

subsection \<open>SandboxMCP\<close>

definition MAX_TOOL_CALLS_PER_PLAN :: nat where
  "MAX_TOOL_CALLS_PER_PLAN = 10"

text \<open>
  The fields of \<open>SandboxMCP\<close>, and the calls that reached the real dispatcher
  (\<open>dispatched\<close>, the effect of the run on the outside).
\<close>

record SandboxMCP =
  call_count :: nat
  tools_called :: "string list"
  dispatched :: "(string \<times> py_value) list"

definition new_SandboxMCP :: SandboxMCP where
  "new_SandboxMCP = \<lparr>call_count = 0, tools_called = [], dispatched = []\<rparr>"

definition quota_error :: py_exc where
  "quota_error = RuntimeError ''Exceeded max tool calls (10) in solve() plan.''"

definition call_tool ::
  "dispatcher \<Rightarrow> string \<Rightarrow> py_value \<Rightarrow> SandboxMCP \<Rightarrow> (py_exc + py_value) \<times> SandboxMCP" where
  "call_tool dispatcher tool_name input_dict self =
     (let self1 = self\<lparr>call_count := call_count self + 1\<rparr>
      in if call_count self1 > MAX_TOOL_CALLS_PER_PLAN then (Inl quota_error, self1)
         else (let self2 = self1\<lparr>tools_called := tools_called self1 @ [tool_name]\<rparr>
               in (dispatcher tool_name input_dict,
                   self2\<lparr>dispatched := dispatched self2 @ [(tool_name, input_dict)]\<rparr>)))"

datatype outcome = Done py_value | Raised py_exc | Awaiting | Looping

primrec run_prog :: "prog \<Rightarrow> dispatcher \<Rightarrow> SandboxMCP \<Rightarrow> outcome \<times> SandboxMCP" where
  "run_prog (Return v) dispatcher self = (Done v, self)"
| "run_prog (Raise e) dispatcher self = (Raised e, self)"
| "run_prog AwaitForever dispatcher self = (Awaiting, self)"
| "run_prog LoopForever dispatcher self = (Looping, self)"
| "run_prog (CallTool tool_name input_dict k) dispatcher self =
     (case call_tool dispatcher tool_name input_dict self of
        (r, self') \<Rightarrow> run_prog (k r) dispatcher self')"
| "run_prog (SetCallCount n p) dispatcher self = run_prog p dispatcher (self\<lparr>call_count := n\<rparr>)"
| "run_prog (CallDispatcher tool_name input_dict k) dispatcher self =
     run_prog (k (dispatcher tool_name input_dict)) dispatcher
       (self\<lparr>dispatched := dispatched self @ [(tool_name, input_dict)]\<rparr>)"

subsection \<open>run\_python\_sandbox\<close>

fun str_all :: "py_env \<Rightarrow> py_value list \<Rightarrow> py_exc + string list" where
  "str_all env [] = Inr []"
| "str_all env (v # vs) =
     (case py_str env v of
        Inl e \<Rightarrow> Inl e
      | Inr s \<Rightarrow> (case str_all env vs of Inl e \<Rightarrow> Inl e | Inr ss \<Rightarrow> Inr (s # ss)))"

definition format_result :: "py_env \<Rightarrow> py_value \<Rightarrow> py_exc + string" where
  "format_result env res =
     (case res of
        PyDict kvs \<Rightarrow>
          (case map_of kvs ''result'' of
             Some v \<Rightarrow> py_str env v
           | None \<Rightarrow> json_dumps env res)
      | PyList vs \<Rightarrow>
          (case str_all env vs of Inl e \<Rightarrow> Inl e | Inr ss \<Rightarrow> Inr (str_join '' '' ss))
      | PyObj s \<Rightarrow> py_str env res)"

text \<open>
  The optional context object: absent (or false), present with or without the attribute
  \<open>actual_tools_used\<close>, or an object whose truth test or attribute access raises.
\<close>

datatype sandbox_context = NoContext | Context "string list option" | Failing py_exc

fun store_tools :: "sandbox_context \<Rightarrow> string list \<Rightarrow> py_exc + sandbox_context" where
  "store_tools NoContext used = Inr NoContext"
| "store_tools (Context None) used = Inr (Context (Some used))"
| "store_tools (Context (Some old)) used = Inr (Context (Some (old @ used)))"
| "store_tools (Failing e) used = Inl e"

text \<open>The body of the \<open>try\<close> block: a value, an exception, or no end.\<close>

datatype 'a attempt = Ok 'a | Exc py_exc | Hang

definition sandbox_try ::
  "py_env \<Rightarrow> string \<Rightarrow> dispatcher \<Rightarrow> sandbox_context \<Rightarrow> (string \<times> sandbox_context) attempt \<times> SandboxMCP" where
  "sandbox_try env code dispatcher ctx =
     (let sandbox_mcp = new_SandboxMCP
      in case exec_plan env code of
           ExecRaises e \<Rightarrow> (Exc e, sandbox_mcp)
         | ExecHangs \<Rightarrow> (Hang, sandbox_mcp)
         | NoSolve \<Rightarrow> (Exc (ValueError ''No solve() function found in plan.''), sandbox_mcp)
         | Solve is_coroutine solve_fn \<Rightarrow>
             (case run_prog solve_fn dispatcher sandbox_mcp of
                (Done v, self) \<Rightarrow>
                  (case format_result env v of
                     Inl e \<Rightarrow> (Exc e, self)
                   | Inr result_str \<Rightarrow>
                       (case store_tools ctx (tools_called self) of
                          Inl e \<Rightarrow> (Exc e, self)
                        | Inr ctx' \<Rightarrow> (Ok (clean_output_structure env result_str, ctx'), self)))
              | (Raised e, self) \<Rightarrow> (Exc e, self)
              | (Awaiting, self) \<Rightarrow> (if is_coroutine then Exc TimeoutError else Hang, self)
              | (Looping, self) \<Rightarrow> (Hang, self)))"

text \<open>
  The result of a call: what the caller gets (a string, an exception, or nothing, ever),
  whether the code was compiled and executed, the state of the gateway handle, and the
  context object. The handler \<open>except Exception as e\<close> formats the exception twice, for
  the log line and for the returned string; when that formatting raises, the new exception
  leaves the handler and reaches the caller. Writing to the console (\<open>print\<close>, \<open>log\<close>) is
  taken to succeed.
\<close>

datatype sandbox_return = Returns string | Raises py_exc | NeverReturns

record sandbox_result =
  returned :: sandbox_return
  executed :: bool
  gateway :: SandboxMCP
  context_after :: sandbox_context

definition run_python_sandbox :: "py_env \<Rightarrow> string \<Rightarrow> dispatcher \<Rightarrow> sandbox_context \<Rightarrow> sandbox_result" where
  "run_python_sandbox env code dispatcher ctx =
     (if contains_unsafe_arguments code
      then \<lparr>returned = Returns ''[sandbox error: unsafe code patterns detected]'',
            executed = False, gateway = new_SandboxMCP, context_after = ctx\<rparr>
      else (case validate_solve_code (ast_parse env) code of
              (is_valid, errs) \<Rightarrow>
                if \<not> is_valid
                then \<lparr>returned = Returns (''[sandbox error: validation failed - ''
                                            @ str_join ''; '' errs @ '']''),
                      executed = False, gateway = new_SandboxMCP, context_after = ctx\<rparr>
                else (case sandbox_try env code dispatcher ctx of
                        (Ok (result_str, ctx'), self) \<Rightarrow>
                          \<lparr>returned = Returns result_str, executed = True, gateway = self,
                           context_after = ctx'\<rparr>
                      | (Exc e, self) \<Rightarrow>
                          \<lparr>returned =
                             (if e = TimeoutError then Returns ''[sandbox error: execution timeout]''
                              else if is_Exception e
                              then (case str_exc e of
                                      Inr m \<Rightarrow> Returns (''[sandbox error: '' @ m @ '']'')
                                    | Inl e' \<Rightarrow> Raises e')
                              else Raises e),
                           executed = True, gateway = self, context_after = ctx\<rparr>
                      | (Hang, self) \<Rightarrow>
                          \<lparr>returned = NeverReturns, executed = True, gateway = self,
                           context_after = ctx\<rparr>)))"

subsection \<open>Definitions used to state the properties\<close>

text \<open>
  The deny-list as the specification words it: the literal texts whose presence in the
  code must block it.
\<close>

definition deny_literals :: "string list" where
  "deny_literals = [''../'', ''<script'', ''delete from'', ''drop table'', ''rm -rf'', ''eval('',
     ''exec('', ''__import__'', ''system('', ''popen('']"



text \<open>
  A plan that reaches the gateway through \<open>mcp.call_tool\<close> only: it neither assigns
  \<open>mcp.call_count\<close> nor calls the dispatcher directly, whatever its calls give back.
\<close>

primrec only_call_tool :: "prog \<Rightarrow> bool" where
  "only_call_tool (Return v) = True"
| "only_call_tool (Raise e) = True"
| "only_call_tool AwaitForever = True"
| "only_call_tool LoopForever = True"
| "only_call_tool (CallTool tool_name input_dict k) = (\<forall>r. only_call_tool (k r))"
| "only_call_tool (SetCallCount n p) = False"
| "only_call_tool (CallDispatcher tool_name input_dict k) = False"

subsection \<open>Example plans\<close>

text \<open>
  Two plans for the examples below. Both call the tool \<open>add\<close> a given number of times
  and then return \<open>done\<close>. The first handles whatever a call raises
  (\<open>try: await mcp.call_tool(...) except Exception: pass\<close>) and goes on; the second
  lets the exception pass.
\<close>

fun plan_handling :: "nat \<Rightarrow> prog" where
  "plan_handling 0 = Return (PyObj ''done'')"
| "plan_handling (Suc n) = CallTool ''add'' (PyObj ''{}'') (\<lambda>_. plan_handling n)"

fun plan_passing :: "nat \<Rightarrow> prog" where
  "plan_passing 0 = Return (PyObj ''done'')"
| "plan_passing (Suc n) =
     CallTool ''add'' (PyObj ''{}'') (\<lambda>r. case r of Inl e \<Rightarrow> Raise e | Inr _ \<Rightarrow> plan_passing n)"

text \<open>
  A third plan makes ten calls, sets \<open>mcp.call_count\<close> back to 0 and calls once more.
\<close>

fun calls_then :: "nat \<Rightarrow> prog \<Rightarrow> prog" where
  "calls_then 0 rest = rest"
| "calls_then (Suc n) rest = CallTool ''add'' (PyObj ''{}'') (\<lambda>_. calls_then n rest)"

definition plan_resetting :: prog where
  "plan_resetting =
     calls_then 10 (SetCallCount 0 (calls_then 1 (Return (PyObj ''done''))))"

text \<open>Their source texts and syntax trees (eleven calls each).\<close>

definition reset_code :: string where
  "reset_code = ''async def solve():\<newline> for i in range(11):\<newline>  if i == 10: mcp.call_count = 0\<newline>  await mcp.call_tool('add', {})\<newline> return 'done'\<newline>''"

definition reset_tree :: node where
  "reset_tree =
     Module [AsyncFunctionDef ''solve''
       [Other [],
        Other [Name ''i'', Call (Name ''range'') [Other []],
               Other [Other [Name ''i'', Other [], Other []],
                      Other [Other [Name ''mcp''], Other []]],
               Other [Other [Call (Other [Name ''mcp'']) [Other [], Other []]]]],
        Other [Other []]]]"

definition loop_code :: string where
  "loop_code = ''async def solve():\<newline> for i in range(11):\<newline>  await mcp.call_tool('add', {})\<newline> return 'done'\<newline>''"

definition loop_tree :: node where
  "loop_tree =
     Module [AsyncFunctionDef ''solve''
       [Other [],
        Other [Name ''i'', Call (Name ''range'') [Other []],
               Other [Other [Call (Other [Name ''mcp'']) [Other [], Other []]]]],
        Other [Other []]]]"

definition try_code :: string where
  "try_code = ''async def solve():\<newline> for i in range(11):\<newline>  try: await mcp.call_tool('add', {})\<newline>  except Exception: pass\<newline> return 'done'\<newline>''"

definition try_tree :: node where
  "try_tree =
     Module [AsyncFunctionDef ''solve''
       [Other [],
        Other [Name ''i'', Call (Name ''range'') [Other []],
               Other [Other [Other [Call (Other [Name ''mcp'']) [Other [], Other []]]],
                      Other [Name ''Exception'', Other []]]],
        Other [Other []]]]"

text \<open>
  An environment that parses every text to the given tree and runs it to the given result,
  and a dispatcher whose tool always answers 2.
\<close>

definition example_env :: "node \<Rightarrow> exec_result \<Rightarrow> py_env" where
  "example_env tree r =
     \<lparr>ast_parse = \<lambda>_. Parsed tree, exec_plan = \<lambda>_. r,
      py_str = (\<lambda>v. case v of PyObj s \<Rightarrow> Inr s | _ \<Rightarrow> Inl (TypeError ''not modelled'')),
      json_dumps = \<lambda>_. Inl (TypeError ''not modelled''),
      clean_output_structure = strip\<rparr>"

definition example_dispatcher :: dispatcher where
  "example_dispatcher tool_name input_dict = Inr (PyObj ''2'')"



definition deep_code :: string where
  "deep_code = ''def solve():\<newline> x = []\<newline> for i in range(200000): x = [x]\<newline> raise ValueError(x)\<newline>''"

definition deep_tree :: node where
  "deep_tree =
     Module [FunctionDef ''solve''
       [Other [],
        Other [Name ''x'', Other []],
        Other [Name ''i'', Call (Name ''range'') [Other []], Other [Name ''x'', Other [Name ''x'']]],
        Other [Call (Name ''ValueError'') [Name ''x'']]]]"

definition deep_error :: py_exc where
  \<comment> \<open>the \<open>ValueError\<close> of \<open>deep_code\<close>: forming its text ends in \<open>RecursionError\<close>\<close>
  "deep_error = Unprintable (RuntimeError ''maximum recursion depth exceeded while getting the repr of an object'')"

definition assign_code :: string where
  "assign_code = ''x = 1''"

definition assign_tree :: node where
  "assign_tree = Module [Other [Name ''x'', Other []]]"

text \<open>
  A plan with an import inside \<open>solve\<close>; the same plan as a coroutine; a plan with a
  coroutine defined inside \<open>solve\<close>; and a plan that defines a second \<open>solve\<close> inside
  the first, before the import.
\<close>

definition import_code :: string where
  "import_code = ''def solve():\<newline> import os\<newline> return os.getcwd()\<newline>''"

definition import_tree :: node where
  "import_tree =
     Module [FunctionDef ''solve'' [Other [], Import, Other [Call (Other [Name ''os'']) []]]]"

definition async_import_tree :: node where
  "async_import_tree =
     Module [AsyncFunctionDef ''solve'' [Other [], Import, Other [Call (Other [Name ''os'']) []]]]"

definition nested_async_tree :: node where
  \<comment> \<open>\<open>def solve(): async def helper(): pass; return 1\<close>\<close>
  "nested_async_tree =
     Module [FunctionDef ''solve''
       [Other [], AsyncFunctionDef ''helper'' [Other [], Other []], Other [Other []]]]"

definition inner_solve_tree :: node where
  "inner_solve_tree =
     Module [FunctionDef ''solve''
       [Other [], FunctionDef ''solve'' [Other [], Other []], Import,
        Other [Call (Other [Name ''os'']) []]]]"

section \<open>Week-10/decision/decision.py\<close>

subsection \<open>JSON values and the library\<close>

datatype json =
    JNull
  | JBool bool
  | JNum int
  | JStr string
  | JArr "json list"
  | JObj "(string \<times> json) list"

text \<open>A Python dictionary with string keys.\<close>

type_synonym pydict = "string \<rightharpoonup> json"

definition dict_of :: "(string \<times> json) list \<Rightarrow> pydict" where
  \<comment> \<open>the dictionary of a JSON object: of two members with one key the later one stays\<close>
  "dict_of kvs = map_of (rev kvs)"

text \<open>
  The library calls of the parser are parameters. \<open>json.loads\<close> is applied to a text in
  braces only, so it gives the members of an object, raises \<open>JSONDecodeError\<close>, or raises
  another exception. \<open>unicode_escape\<close> is
  \<open>bytes(s, "utf-8").decode("unicode_escape")\<close>, and \<open>update_pairs v\<close> gives the pairs
  that \<open>dict.update(v)\<close> stores for a \<open>v\<close> that is not an object. Each of the last two
  raises with a message (\<open>Inl\<close>) or gives its value. All these exceptions derive from
  \<open>Exception\<close>.
\<close>

datatype loads_result = Loaded "(string \<times> json) list" | JSONDecodeError string | LoadsError string

record json_lib =
  loads_object :: "string \<Rightarrow> loads_result"
  unicode_escape :: "string \<Rightarrow> string + string"
  update_pairs :: "json \<Rightarrow> string + (string \<times> json) list"

subsection \<open>The two regular expressions\<close>

definition starts_with :: "string \<Rightarrow> string \<Rightarrow> bool" where
  "starts_with pre s = (take (length pre) s = pre)"

text \<open>
  \<open>re.search(r"```json\s*(\{.*?\})\s*```", raw_text, re.DOTALL)\<close>: the first start
  position that matches and, from there, the shortest group.
\<close>

fun lazy_close :: "string \<Rightarrow> string \<Rightarrow> string option" where
  \<comment> \<open>the text up to the first closing brace that is followed by \<open>\s*```\<close>\<close>
  "lazy_close acc [] = None"
| "lazy_close acc (c # cs) =
     (if c = CHR ''}'' \<and> starts_with ''```'' (dropWhile is_space cs) then Some (acc @ [c])
      else lazy_close (acc @ [c]) cs)"

definition match_block :: "string \<Rightarrow> string option" where
  "match_block s =
     (if starts_with ''```json'' s
      then (case dropWhile is_space (drop 7 s) of
              [] \<Rightarrow> None
            | c # cs \<Rightarrow> if c = CHR ''{'' then lazy_close [c] cs else None)
      else None)"

fun search_block :: "string \<Rightarrow> string option" where
  "search_block [] = match_block []"
| "search_block (c # cs) =
     (case match_block (c # cs) of Some g \<Rightarrow> Some g | None \<Rightarrow> search_block cs)"

text \<open>\<open>re.search(r'code\s*:\s*"(.*?)"', json_block, re.DOTALL)\<close>\<close>

definition match_code :: "string \<Rightarrow> string option" where
  "match_code s =
     (if starts_with ''code'' s
      then (case dropWhile is_space (drop 4 s) of
              [] \<Rightarrow> None
            | c # cs \<Rightarrow>
                if c = CHR '':''
                then (case dropWhile is_space cs of
                        [] \<Rightarrow> None
                      | q # rest \<Rightarrow>
                          if q = CHR 0x22 \<and> CHR 0x22 \<in> set rest
                          then Some (takeWhile (\<lambda>x. x \<noteq> CHR 0x22) rest)
                          else None)
                else None)
      else None)"

fun search_code :: "string \<Rightarrow> string option" where
  "search_code [] = match_code []"
| "search_code (c # cs) =
     (case match_code (c # cs) of Some g \<Rightarrow> Some g | None \<Rightarrow> search_code cs)"

subsection \<open>Decision.run\<close>

definition salvage :: "json_lib \<Rightarrow> string \<Rightarrow> string \<Rightarrow> string + pydict" where
  \<comment> \<open>the handler of \<open>json.JSONDecodeError\<close>\<close>
  "salvage lib raw_text json_block =
     (case (case search_code json_block of
              Some g \<Rightarrow> unicode_escape lib g
            | None \<Rightarrow> Inr [])
      of Inl m \<Rightarrow> Inl m
       | Inr code_value \<Rightarrow>
           Inr (dict_of
             [(''step_index'', JNum 0),
              (''description'', JStr ''Recovered partial JSON from LLM.''),
              (''type'', JStr (if code_value \<noteq> [] then ''CODE'' else ''NOP'')),
              (''code'', JStr code_value),
              (''conclusion'', JStr []),
              (''plan_text'', JArr [JStr ''Step 0: Partial plan recovered due to JSON decode error.'']),
              (''raw_text'', JStr (take 1000 raw_text))]))"

definition update_dict :: "pydict \<Rightarrow> (string \<times> json) list \<Rightarrow> pydict" where
  "update_dict d kvs = d ++ dict_of kvs"

definition merge_next_step :: "json_lib \<Rightarrow> pydict \<Rightarrow> string + pydict" where
  \<comment> \<open>\<open>if "next_step" in output: output.update(output.pop("next_step"))\<close>\<close>
  "merge_next_step lib output =
     (case output ''next_step'' of
        None \<Rightarrow> Inr output
      | Some v \<Rightarrow>
          (let popped = output(''next_step'' := None)
           in case v of
                JObj kvs \<Rightarrow> Inr (update_dict popped kvs)
              | _ \<Rightarrow> (case update_pairs lib v of
                         Inl m \<Rightarrow> Inl m
                       | Inr kvs \<Rightarrow> Inr (update_dict popped kvs))))"

definition defaults :: "(string \<times> json) list" where
  "defaults =
     [(''step_index'', JNum 0),
      (''description'', JStr ''Missing from LLM response''),
      (''type'', JStr ''NOP''),
      (''code'', JStr []),
      (''conclusion'', JStr []),
      (''plan_text'', JArr [JStr ''Step 0: No valid plan returned by LLM.''])]"

definition setdefault :: "string \<times> json \<Rightarrow> pydict \<Rightarrow> pydict" where
  "setdefault kv d = (case d (fst kv) of None \<Rightarrow> d(fst kv \<mapsto> snd kv) | Some _ \<Rightarrow> d)"

definition apply_defaults :: "pydict \<Rightarrow> pydict" where
  "apply_defaults output = fold setdefault defaults output"

text \<open>
  The body of the outer \<open>try\<close> up to the defaults: the merged output, or the message of
  the exception raised.
\<close>

definition parse_merged :: "json_lib \<Rightarrow> string \<Rightarrow> string + pydict" where
  "parse_merged lib raw_text =
     (case search_block raw_text of
        None \<Rightarrow> Inl ''No JSON block found''
      | Some json_block \<Rightarrow>
          (case (case loads_object lib json_block of
                   Loaded kvs \<Rightarrow> Inr (dict_of kvs)
                 | JSONDecodeError m \<Rightarrow> salvage lib raw_text json_block
                 | LoadsError m \<Rightarrow> Inl m)
           of Inl m \<Rightarrow> Inl m
            | Inr output \<Rightarrow> merge_next_step lib output))"

definition parse_failure :: "string \<Rightarrow> string \<Rightarrow> pydict" where
  \<comment> \<open>the handler \<open>except Exception as e\<close>, with \<open>m = str(e)\<close>\<close>
  "parse_failure m raw_text =
     dict_of
       [(''step_index'', JNum 0),
        (''description'', JStr (''Exception while parsing LLM output: '' @ m)),
        (''type'', JStr ''HUMAN_IN_LOOP''),
        (''code'', JStr []),
        (''conclusion'', JStr []),
        (''plan_text'', JArr [JStr ''Step 0: Failed to parse decision. Human intervention required.'']),
        (''raw_text'', JStr (take 1000 raw_text)),
        (''human_in_loop_reason'', JStr ''PLAN_FAILURE''),
        (''human_in_loop_message'',
           JStr (''Failed to parse decision output: '' @ m @ ''. Please provide a valid plan.'')),
        (''suggested_plan'',
           JArr [JStr ''Step 0: Clarify the query'', JStr ''Step 1: Retry with simpler approach''])]"

definition server_failure :: "string \<Rightarrow> pydict" where
  \<comment> \<open>the handler \<open>except ServerError as e\<close>\<close>
  "server_failure m =
     dict_of
       [(''step_index'', JNum 0),
        (''description'', JStr ''Decision model unavailable: server overload.''),
        (''type'', JStr ''HUMAN_IN_LOOP''),
        (''code'', JStr []),
        (''conclusion'', JStr []),
        (''plan_text'',
           JArr [JStr ''Step 0: Decision model returned a 503. Human intervention required.'']),
        (''raw_text'', JStr m),
        (''human_in_loop_reason'', JStr ''PLAN_FAILURE''),
        (''human_in_loop_message'', JStr ''LLM server error. Please provide guidance or retry.''),
        (''suggested_plan'',
           JArr [JStr ''Step 0: Retry the query'', JStr ''Step 1: Use alternative approach''])]"

text \<open>
  What the model call gives: a \<open>ServerError\<close>, or a response with its text. (The building
  of the prompt is left out; it does not reach the parser.)
\<close>

datatype llm_response = ServerError string | Text string

definition Decision_run :: "json_lib \<Rightarrow> llm_response \<Rightarrow> pydict" where
  "Decision_run lib response =
     (case response of
        ServerError m \<Rightarrow> server_failure m
      | Text t \<Rightarrow>
          (let raw_text = strip t
           in case parse_merged lib raw_text of
                Inr output \<Rightarrow> apply_defaults output
              | Inl m \<Rightarrow> parse_failure m raw_text))"

definition required_keys :: "string list" where
  "required_keys = [''step_index'', ''description'', ''type'', ''code'', ''conclusion'', ''plan_text'']"

text \<open>
  A library for the examples: it loads the empty object, rejects every other text, decodes
  every text to itself and cannot update from a value that is not an object.
\<close>

definition example_lib :: json_lib where
  "example_lib =
     \<lparr>loads_object = (\<lambda>s. if s = ''{}'' then Loaded [] else JSONDecodeError ''Expecting value''),
      unicode_escape = Inr,
      update_pairs = \<lambda>_. Inl ''object is not iterable''\<rparr>"

section \<open>Week-10/agent/agent\_loop2.py\<close>

definition GLOBAL_PREVIOUS_FAILURE_STEPS :: nat where
  "GLOBAL_PREVIOUS_FAILURE_STEPS = 3"

definition MAX_STEPS :: nat where
  "MAX_STEPS = 3"

definition MAX_RETRIES :: nat where
  "MAX_RETRIES = 3"

subsection \<open>Steps, sessions and the collaborators\<close>

text \<open>
  Modelled from the spec: the classes \<open>Step\<close>, \<open>PerceptionSnapshot\<close> and \<open>AgentSession\<close>
  of agent/agentSession.py, which is not among the sources. A step has the fields the loop
  reads and writes (its message, suggested plan, execution result and error are texts
  that decide nothing and are left out); a new step has retry count 0 and status
  \<open>pending\<close>. \<open>add_plan_version\<close> appends a plan version and gives back its step, and
  \<open>mark_complete\<close> records that the goal is achieved.

  Steps are objects: the loop variable and the plan version hold the same step, and
  \<open>execute_step\<close> changes it in place. The session therefore keeps the steps in a store,
  addressed by reference, and plan versions hold references.
\<close>

record perception_snapshot =
  local_goal_achieved :: bool
  original_goal_achieved :: bool

record step =
  index :: int
  description :: string
  type :: string
  status :: string
  tool_code :: "string option"
  conclusion :: "string option"
  retries :: nat
  human_in_loop_reason :: "string option"
  perception :: "perception_snapshot option"

record plan_version =
  plan_text :: "string list"
  steps :: "nat list"

record session =
  objects :: "nat \<Rightarrow> step"
  next_object :: nat
  plan_versions :: "plan_version list"
  total_steps_executed :: nat
  goal_achieved :: bool

text \<open>
  The collaborators are given by their answers, in the order of the calls: the decision
  module (its output as \<open>create_step\<close> reads it), the perception module and the executor
  \<open>run_user_code\<close>.
\<close>

record decision_output =
  out_step_index :: int
  out_description :: string
  out_type :: string
  out_code :: string
  out_conclusion :: "string option"
  out_plan_text :: "string list"
  out_human_in_loop_reason :: "string option"

record executor_response =
  requires_human_intervention :: bool
  response_human_in_loop_reason :: "string option"

record collaborators =
  decision_run :: "nat \<Rightarrow> decision_output"
  perception_run :: "nat \<Rightarrow> perception_snapshot"
  run_user_code :: "nat \<Rightarrow> executor_response"

text \<open>
  The state of a run: the session, the list \<open>session_memory\<close> of the loop (the
  descriptions of the failed steps), and the number of calls made to each collaborator.
\<close>

record agent_state = session +
  session_memory :: "string list"
  decisions_made :: nat
  perceptions_made :: nat
  executions_made :: nat

definition blank_step :: step where
  "blank_step =
     \<lparr>index = 0, description = [], type = [], status = ''pending'', tool_code = None,
      conclusion = None, retries = 0, human_in_loop_reason = None, perception = None\<rparr>"

definition new_session :: agent_state where
  "new_session =
     \<lparr>objects = (\<lambda>_. blank_step), next_object = 0, plan_versions = [],
      total_steps_executed = 0, goal_achieved = False,
      session_memory = [], decisions_made = 0, perceptions_made = 0, executions_made = 0\<rparr>"

definition update_step :: "nat \<Rightarrow> (step \<Rightarrow> step) \<Rightarrow> agent_state \<Rightarrow> agent_state" where
  "update_step r f st = st\<lparr>objects := (objects st)(r := f (objects st r))\<rparr>"

definition allocate :: "step \<Rightarrow> agent_state \<Rightarrow> nat \<times> agent_state" where
  "allocate s st =
     (next_object st,
      st\<lparr>objects := (objects st)(next_object st := s), next_object := next_object st + 1\<rparr>)"

definition add_plan_version :: "string list \<Rightarrow> step \<Rightarrow> agent_state \<Rightarrow> nat \<times> agent_state" where
  \<comment> \<open>\<open>session.add_plan_version(plan_text, [step])\<close>\<close>
  "add_plan_version text s st =
     (case allocate s st of
        (r, st') \<Rightarrow>
          (r, st'\<lparr>plan_versions := plan_versions st' @ [\<lparr>plan_text = text, steps = [r]\<rparr>]\<rparr>))"

definition append_to_last_version :: "step \<Rightarrow> agent_state \<Rightarrow> agent_state" where
  \<comment> \<open>\<open>session.plan_versions[-1]["steps"].append(step)\<close>; the list is not empty where
      the loop calls it, since the pending step came with a plan version\<close>
  "append_to_last_version s st =
     (case allocate s st of
        (r, st') \<Rightarrow>
          (case rev (plan_versions st') of
             [] \<Rightarrow> st'
           | v # earlier \<Rightarrow>
               st'\<lparr>plan_versions := rev earlier @ [v\<lparr>steps := steps v @ [r]\<rparr>]\<rparr>))"

definition mark_complete :: "agent_state \<Rightarrow> agent_state" where
  "mark_complete st = st\<lparr>goal_achieved := True\<rparr>"

subsection \<open>create\_step\<close>

definition create_step :: "decision_output \<Rightarrow> step" where
  "create_step d =
     \<lparr>index = out_step_index d,
      description = out_description d,
      type = out_type d,
      status = ''pending'',
      tool_code = (if out_type d = ''CODE'' then Some (out_code d) else None),
      conclusion = out_conclusion d,
      retries = 0,
      human_in_loop_reason = out_human_in_loop_reason d,
      perception = None\<rparr>"

subsection \<open>execute\_step\<close>

definition next_execution :: "collaborators \<Rightarrow> agent_state \<Rightarrow> executor_response \<times> agent_state" where
  "next_execution orc st = (run_user_code orc (executions_made st), st\<lparr>executions_made := executions_made st + 1\<rparr>)"

definition next_perception :: "collaborators \<Rightarrow> agent_state \<Rightarrow> perception_snapshot \<times> agent_state" where
  "next_perception orc st = (perception_run orc (perceptions_made st), st\<lparr>perceptions_made := perceptions_made st + 1\<rparr>)"

definition next_decision :: "collaborators \<Rightarrow> agent_state \<Rightarrow> decision_output \<times> agent_state" where
  "next_decision orc st = (decision_run orc (decisions_made st), st\<lparr>decisions_made := decisions_made st + 1\<rparr>)"

definition remember_failure :: "string \<Rightarrow> agent_state \<Rightarrow> agent_state" where
  \<comment> \<open>\<open>session_memory.append(...)\<close>, then \<open>pop(0)\<close> when longer than the limit\<close>
  "remember_failure text st =
     (let m = session_memory st @ [text]
      in st\<lparr>session_memory := (if length m > GLOBAL_PREVIOUS_FAILURE_STEPS then tl m else m)\<rparr>)"

definition execute_step :: "collaborators \<Rightarrow> nat \<Rightarrow> agent_state \<Rightarrow> nat option \<times> agent_state" where
  "execute_step orc r st =
     (let s = objects st r
      in if type s = ''CODE'' then
           (if retries s \<ge> MAX_RETRIES then
              (Some r,
               update_step r (\<lambda>s. s\<lparr>type := ''HUMAN_IN_LOOP'', status := ''awaiting_human'',
                                     human_in_loop_reason := Some ''MAX_RETRIES_EXCEEDED''\<rparr>) st)
            else
              (case next_execution orc st of
                 (executor_response, st1) \<Rightarrow>
                   if requires_human_intervention executor_response then
                     (Some r,
                      update_step r
                        (\<lambda>s. s\<lparr>type := ''HUMAN_IN_LOOP'', status := ''awaiting_human'',
                               human_in_loop_reason :=
                                 Some (case response_human_in_loop_reason executor_response of
                                         Some reason \<Rightarrow> reason | None \<Rightarrow> ''TOOL_FAILURE''),
                               retries := retries s + 1\<rparr>) st1)
                   else
                     (case next_perception orc (update_step r (\<lambda>s. s\<lparr>status := ''completed''\<rparr>) st1) of
                        (perception_result, st2) \<Rightarrow>
                          (let st3 = update_step r (\<lambda>s. s\<lparr>perception := Some perception_result\<rparr>) st2
                           in if \<not> local_goal_achieved perception_result then
                                (Some r,
                                 remember_failure (description s)
                                   (update_step r (\<lambda>s. s\<lparr>retries := retries s + 1\<rparr>) st3))
                              else (Some r, st3)))))
         else if type s = ''CONCLUDE'' then
           (case next_perception orc (update_step r (\<lambda>s. s\<lparr>status := ''completed''\<rparr>) st) of
              (perception_result, st1) \<Rightarrow>
                (None, mark_complete (update_step r (\<lambda>s. s\<lparr>perception := Some perception_result\<rparr>) st1)))
         else if type s = ''NOP'' then
           (None, update_step r (\<lambda>s. s\<lparr>status := ''clarification_needed''\<rparr>) st)
         else if type s = ''HUMAN_IN_LOOP'' then
           (Some r, update_step r (\<lambda>s. s\<lparr>status := ''awaiting_human''\<rparr>) st)
         else (None, st))"

subsection \<open>evaluate\_step and get\_next\_step\<close>

definition replan :: "collaborators \<Rightarrow> agent_state \<Rightarrow> nat option \<times> agent_state" where
  \<comment> \<open>the call of the decision module and what both callers do with its output\<close>
  "replan orc st =
     (case next_decision orc st of
        (decision_output, st1) \<Rightarrow>
          if out_type decision_output = ''HUMAN_IN_LOOP'' then
            (case add_plan_version (out_plan_text decision_output)
                    ((create_step decision_output)\<lparr>status := ''awaiting_human''\<rparr>) st1 of
               (r, st2) \<Rightarrow> (Some r, st2))
          else
            (case add_plan_version (out_plan_text decision_output) (create_step decision_output) st1 of
               (r, st2) \<Rightarrow> (Some r, st2)))"

definition get_next_step :: "collaborators \<Rightarrow> nat \<Rightarrow> agent_state \<Rightarrow> nat option \<times> agent_state" where
  "get_next_step orc r st =
     (let next_index = index (objects st r) + 1;
          total_steps = (case rev (plan_versions st) of [] \<Rightarrow> 0 | v # _ \<Rightarrow> int (length (plan_text v)))
      in if next_index < total_steps then replan orc st else (None, st))"

text \<open>
  \<open>evaluate_step\<close> reads \<open>step.perception\<close>; on a step without one the attribute access
  raises.
\<close>

definition evaluate_step :: "collaborators \<Rightarrow> nat \<Rightarrow> agent_state \<Rightarrow> py_exc + nat option \<times> agent_state" where
  "evaluate_step orc r st =
     (case perception (objects st r) of
        None \<Rightarrow> Inl (OtherException ''AttributeError'')
      | Some p \<Rightarrow>
          if original_goal_achieved p then Inr (None, mark_complete st)
          else if local_goal_achieved p then Inr (get_next_step orc r st)
          else Inr (replan orc st))"

subsection \<open>The loop of run\<close>

text \<open>The counter of executed steps is written by the loop only.\<close>

lemma update_step_total:
  "total_steps_executed (update_step r f st) = total_steps_executed st"
  by (simp add: update_step_def)

lemma add_plan_version_total:
  "total_steps_executed (snd (add_plan_version text s st)) = total_steps_executed st"
  by (simp add: add_plan_version_def allocate_def)

lemma replan_total: "total_steps_executed (snd (replan orc st)) = total_steps_executed st"
  by (simp add: replan_def next_decision_def add_plan_version_def allocate_def split: prod.splits)

lemma execute_step_total:
  "total_steps_executed (snd (execute_step orc r st)) = total_steps_executed st"
  by (simp add: execute_step_def Let_def next_execution_def next_perception_def update_step_def
      remember_failure_def mark_complete_def split: prod.splits)

lemma evaluate_step_total:
  "evaluate_step orc r st = Inr (next, st') \<Longrightarrow> total_steps_executed st' = total_steps_executed st"
  using replan_total [of orc st]
  by (auto simp: evaluate_step_def get_next_step_def Let_def mark_complete_def
      split: option.splits if_splits)

lemma loop_measure:
  assumes "\<not> limit \<le> total_steps_executed st"
    and "(x, y) = execute_step orc r st"
    and "evaluate_step orc r' (y\<lparr>total_steps_executed := total_steps_executed y + 1\<rparr>) = Inr b"
    and "(xa, ya) = b"
  shows "limit - total_steps_executed ya < limit - total_steps_executed st"
proof -
  from assms(2) have "total_steps_executed y = total_steps_executed st"
    using execute_step_total [of orc r st] by (metis snd_conv)
  moreover from assms(3,4) have "total_steps_executed ya = total_steps_executed y + 1"
    using evaluate_step_total [of orc r' _ xa ya] by auto
  ultimately show ?thesis using assms(1) by simp
qed

definition max_steps_step :: "int \<Rightarrow> step" where
  \<comment> \<open>the step built when the step budget is used up\<close>
  "max_steps_step i =
     \<lparr>index = i, description = ''Maximum steps (3) reached'', type = ''HUMAN_IN_LOOP'',
      status = ''awaiting_human'', tool_code = None, conclusion = None, retries = 0,
      human_in_loop_reason = Some ''MAX_STEPS_EXCEEDED'', perception = None\<rparr>"

function run_loop :: "collaborators \<Rightarrow> nat option \<Rightarrow> agent_state \<Rightarrow> py_exc + agent_state" where
  "run_loop orc None st = Inr st"
| "run_loop orc (Some r) st =
     (if total_steps_executed st \<ge> MAX_STEPS
      then Inr (append_to_last_version (max_steps_step (index (objects st r))) st)
      else (case execute_step orc r st of
              (None, st1) \<Rightarrow> Inr st1
            | (Some step_result, st1) \<Rightarrow>
                if type (objects st1 step_result) = ''HUMAN_IN_LOOP'' then Inr st1
                else (case evaluate_step orc step_result
                             (st1\<lparr>total_steps_executed := total_steps_executed st1 + 1\<rparr>) of
                        Inl e \<Rightarrow> Inl e
                      | Inr (next, st2) \<Rightarrow> run_loop orc next st2)))"
  by pat_completeness auto
termination
proof (relation "measure (\<lambda>(orc, step, st). MAX_STEPS - total_steps_executed st)")
  show "wf (measure (\<lambda>(orc, step, st). MAX_STEPS - total_steps_executed st))" by simp
next
  fix orc :: collaborators and step x2 x x2a b xa and st y ya :: agent_state
  assume lim: "\<not> MAX_STEPS \<le> total_steps_executed st"
    and ex: "(x, y) = execute_step orc x2 st" and "x = Some x2a"
    and "type (objects y x2a) \<noteq> ''HUMAN_IN_LOOP''"
    and ev: "evaluate_step orc x2a (y\<lparr>total_steps_executed := total_steps_executed y + 1\<rparr>) = Inr b"
    and b: "(xa, ya) = b"
  from loop_measure [OF lim ex ev b]
  show "((orc, xa, ya), (orc, Some x2, st))
        \<in> measure (\<lambda>(orc, step, st). MAX_STEPS - total_steps_executed st)"
    by simp
qed

subsection \<open>run\<close>

definition run :: "collaborators \<Rightarrow> py_exc + agent_state" where
  "run orc =
     (case next_perception orc new_session of
        (perception_result, st) \<Rightarrow>
          if original_goal_achieved perception_result then Inr (mark_complete st)
          else (case next_decision orc st of
                  (decision_output, st1) \<Rightarrow>
                    if out_type decision_output = ''HUMAN_IN_LOOP'' then
                      Inr (snd (add_plan_version (out_plan_text decision_output)
                                  ((create_step decision_output)\<lparr>status := ''awaiting_human''\<rparr>) st1))
                    else (case add_plan_version (out_plan_text decision_output)
                                 (create_step decision_output) st1 of
                            (r, st2) \<Rightarrow> run_loop orc (Some r) st2)))"

subsection \<open>resume\_with\_guidance\<close>

function resume_loop :: "collaborators \<Rightarrow> nat option \<Rightarrow> agent_state \<Rightarrow> py_exc + agent_state" where
  "resume_loop orc None st = Inr st"
| "resume_loop orc (Some r) st =
     (if total_steps_executed st \<ge> MAX_STEPS + 3
      then Inr st
      else (case execute_step orc r st of
              (None, st1) \<Rightarrow> Inr st1
            | (Some step_result, st1) \<Rightarrow>
                if type (objects st1 step_result) = ''HUMAN_IN_LOOP'' then Inr st1
                else (case evaluate_step orc step_result
                             (st1\<lparr>total_steps_executed := total_steps_executed st1 + 1\<rparr>) of
                        Inl e \<Rightarrow> Inl e
                      | Inr (next, st2) \<Rightarrow> resume_loop orc next st2)))"
  by pat_completeness auto
termination
proof (relation "measure (\<lambda>(orc, step, st). MAX_STEPS + 3 - total_steps_executed st)")
  show "wf (measure (\<lambda>(orc, step, st). MAX_STEPS + 3 - total_steps_executed st))" by simp
next
  fix orc :: collaborators and step x2 x x2a b xa and st y ya :: agent_state
  assume lim: "\<not> MAX_STEPS + 3 \<le> total_steps_executed st"
    and ex: "(x, y) = execute_step orc x2 st" and "x = Some x2a"
    and "type (objects y x2a) \<noteq> ''HUMAN_IN_LOOP''"
    and ev: "evaluate_step orc x2a (y\<lparr>total_steps_executed := total_steps_executed y + 1\<rparr>) = Inr b"
    and b: "(xa, ya) = b"
  from loop_measure [OF lim ex ev b]
  show "((orc, xa, ya), (orc, Some x2, st))
        \<in> measure (\<lambda>(orc, step, st). MAX_STEPS + 3 - total_steps_executed st)"
    by simp
qed

text \<open>
  \<open>resume_with_guidance\<close> calls the decision module twice and keeps the second output.
  The session it is given has a plan version (it reads the last one); the loop starts
  with an empty \<open>session_memory\<close>.
\<close>

definition resume_with_guidance :: "collaborators \<Rightarrow> agent_state \<Rightarrow> py_exc + agent_state" where
  "resume_with_guidance orc st =
     (case next_decision orc st of
        (ignored, st1) \<Rightarrow>
          (case next_decision orc st1 of
             (decision_output, st2) \<Rightarrow>
               if out_type decision_output = ''HUMAN_IN_LOOP'' then Inr st2
               else (case add_plan_version (out_plan_text decision_output)
                            (create_step decision_output) st2 of
                       (r, st3) \<Rightarrow> resume_loop orc (Some r) (st3\<lparr>session_memory := []\<rparr>))))"

subsection \<open>Example collaborators\<close>

text \<open>
  The decision module always proposes a \<open>CODE\<close> step of a one-line plan, the executor
  always answers without asking for a human, and the perception module never finds a goal
  achieved: every step fails.
\<close>

definition code_decision :: decision_output where
  "code_decision =
     \<lparr>out_step_index = 0, out_description = ''call the tool'', out_type = ''CODE'',
      out_code = ''result = failing_tool()'', out_conclusion = None,
      out_plan_text = [''Step 0: call the tool''], out_human_in_loop_reason = None\<rparr>"

definition failing_collaborators :: collaborators where
  "failing_collaborators =
     \<lparr>decision_run = \<lambda>_. code_decision,
      perception_run = \<lambda>_. \<lparr>local_goal_achieved = False, original_goal_achieved = False\<rparr>,
      run_user_code = \<lambda>_. \<lparr>requires_human_intervention = False,
                             response_human_in_loop_reason = None\<rparr>\<rparr>"

text \<open>The same, with an executor that reports every failure as one for a human.\<close>

definition escalating_collaborators :: collaborators where
  "escalating_collaborators =
     failing_collaborators
       \<lparr>run_user_code := \<lambda>_. \<lparr>requires_human_intervention = True,
                                response_human_in_loop_reason = None\<rparr>\<rparr>"

text \<open>A session with a plan version and a pending step whose step budget is used up.\<close>

definition exhausted_session :: agent_state where
  "exhausted_session =
     (snd (add_plan_version [''Step 0: call the tool''] (create_step code_decision) new_session))
       \<lparr>total_steps_executed := 3\<rparr>"

section \<open>Properties of the relevance score\<close>

lemma simple_cosine_similarity_ge0: "0 \<le> simple_cosine_similarity a b"
  by (simp add: simple_cosine_similarity_def Let_def)

lemma simple_cosine_similarity_le1: "simple_cosine_similarity a b \<le> 1"
proof -
  let ?A = "set (extract_query_terms a)" and ?B = "set (extract_query_terms b)"
  have frac: "real m / real n \<le> 1" if "m \<le> n" for m n :: nat
    using that by (cases "n = 0") (auto simp: divide_le_eq_1)
  have "card (?A \<inter> ?B) \<le> card (?A \<union> ?B)"
    by (rule card_mono) auto
  then have "real (card (?A \<inter> ?B)) / real (card (?A \<union> ?B)) \<le> 1"
    by (rule frac)
  then show ?thesis
    unfolding simple_cosine_similarity_def Let_def by (simp del: of_nat_le_iff)
qed

lemma tool_success_score_bounds: "0 \<le> tool_success_score item \<and> tool_success_score item \<le> 0.15"
  by (simp add: tool_success_score_def)

lemma provenance_score_bounds: "0 \<le> provenance_score item \<and> provenance_score item \<le> 0.10"
  by (simp add: provenance_score_def)

lemma length_score_bounds: "0 \<le> length_score item \<and> length_score item \<le> 0.10"
  by (simp add: length_score_def Let_def)

lemma recency_score_bounds:
  assumes "age_hours fromiso item current_time = Some age" and "0 \<le> age"
  shows "0 \<le> recency_score fromiso item current_time"
    and "recency_score fromiso item current_time \<le> 0.30"
proof -
  have "exp (- age / 168) \<le> 1" using assms(2) by simp
  then show "recency_score fromiso item current_time \<le> 0.30"
    using assms(1) by (simp add: recency_score_def)
  show "0 \<le> recency_score fromiso item current_time"
    using assms(1) by (simp add: recency_score_def)
qed

text \<open>
  C10. For a record whose timestamp parses and is not in the future (its age in hours is
  defined and non-negative), any query terms, current time and set of seen texts, the
  score of \<open>calculate_historical_score\<close> lies between 0 and 1 inclusive.
\<close>

theorem calculate_historical_score_unit_interval:
  assumes "age_hours fromiso item current_time = Some age" and "0 \<le> age"
  shows "0 \<le> calculate_historical_score fromiso item query_terms current_time seen_texts
         \<and> calculate_historical_score fromiso item query_terms current_time seen_texts \<le> 1"
proof -
  let ?sim = "simple_cosine_similarity (str_join '' '' query_terms) (item_text_of item)"
  note r = recency_score_bounds [OF assms]
  have s: "0 \<le> ?sim * 0.30" "?sim * 0.30 \<le> 0.30"
    using simple_cosine_similarity_ge0 [of "str_join '' '' query_terms" "item_text_of item"]
      simple_cosine_similarity_le1 [of "str_join '' '' query_terms" "item_text_of item"]
    by simp_all
  note t = tool_success_score_bounds [of item]
  note p = provenance_score_bounds [of item]
  note l = length_score_bounds [of item]
  show ?thesis
    unfolding calculate_historical_score_def using r s t p l by (simp split: if_splits)
qed

theorem calculate_historical_score_unit_interval_witness:
  "age_hours (\<lambda>_. None)
     \<lparr>timestamp = Val (TNum 0), user = Val ''add two numbers'', assistant = Val ''4'',
      tool = Val ''add'', success = Val True, result = Val ''4''\<rparr> 7200 = Some 2
   \<and> 0 \<le> calculate_historical_score (\<lambda>_. None)
     \<lparr>timestamp = Val (TNum 0), user = Val ''add two numbers'', assistant = Val ''4'',
      tool = Val ''add'', success = Val True, result = Val ''4''\<rparr> [''add'', ''numbers''] 7200 {}
   \<and> calculate_historical_score (\<lambda>_. None)
     \<lparr>timestamp = Val (TNum 0), user = Val ''add two numbers'', assistant = Val ''4'',
      tool = Val ''add'', success = Val True, result = Val ''4''\<rparr> [''add'', ''numbers''] 7200 {} \<le> 1"
  using calculate_historical_score_unit_interval
    [where fromiso = "\<lambda>_. None" and current_time = 7200 and age = 2
       and query_terms = "[''add'', ''numbers'']" and seen_texts = "{}"
       and item = "\<lparr>timestamp = Val (TNum 0), user = Val ''add two numbers'', assistant = Val ''4'',
      tool = Val ''add'', success = Val True, result = Val ''4''\<rparr>"]
  by (simp add: age_hours_def)

lemma exp_decay_step:
  fixes x d :: real
  assumes "0 \<le> x" and "0 \<le> d"
  shows "exp (- x) - exp (- (x + d)) \<le> d"
proof -
  have "1 - d \<le> exp (- d)"
    using exp_ge_add_one_self [of "- d"] by simp
  then have "1 - exp (- d) \<le> d" by simp
  moreover have "exp (- x) \<le> 1" using assms(1) by simp
  moreover have "0 \<le> 1 - exp (- d)" using assms(2) by simp
  ultimately have "exp (- x) * (1 - exp (- d)) \<le> 1 * d"
    by (intro mult_mono) simp_all
  moreover have "exp (- (x + d)) = exp (- x) * exp (- d)"
    by (simp add: exp_add [symmetric])
  ultimately show ?thesis by (simp add: algebra_simps)
qed



text \<open>
  The condition on the other factors is not idle. The provenance factor counts a timestamp
  by its truth value, and the number 0 is false: a record stamped with the number 0 and
  the same record stamped -3600 differ in provenance by 0.03, and at current time 0 the
  first, of age 0 hours, scores less than the second, of age 1 hour.
\<close>

lemma number_zero_timestamp_changes_provenance:
  "provenance_score \<lparr>timestamp = Val (TNum 0), user = Val ''q'', assistant = Val ''r'',
      tool = Missing, success = Missing, result = Missing\<rparr> = 0
   \<and> provenance_score \<lparr>timestamp = Val (TNum (- 3600)), user = Val ''q'', assistant = Val ''r'',
      tool = Missing, success = Missing, result = Missing\<rparr> = 0.03
   \<and> calculate_historical_score (\<lambda>_. None)
        \<lparr>timestamp = Val (TNum 0), user = Val ''q'', assistant = Val ''r'',
         tool = Missing, success = Missing, result = Missing\<rparr> [] 0 {}
     < calculate_historical_score (\<lambda>_. None)
        \<lparr>timestamp = Val (TNum (- 3600)), user = Val ''q'', assistant = Val ''r'',
         tool = Missing, success = Missing, result = Missing\<rparr> [] 0 {}"
proof -
  have "exp (- (0::real)) - exp (- (0 + 1 / 168)) \<le> 1 / 168"
    by (rule exp_decay_step) simp_all
  then have "1 - exp (- (1 / 168 :: real)) \<le> 1 / 168" by simp
  then show ?thesis
    by (simp add: calculate_historical_score_def recency_score_def age_hours_def
        provenance_score_def tool_success_score_def length_score_def item_text_of_def
        is_diverse_def truthy_ts_def truthy_str_def truthy_bool_def Let_def)
qed









lemma single_line_append [simp]: "single_line (xs @ ys) = (single_line xs \<and> single_line ys)"
  by (simp add: single_line_def)















section \<open>Properties of the sandbox\<close>

lemma match_here_append: "match_here p w \<Longrightarrow> match_here p (w @ r)"
  by (induction p w rule: match_here.induct) auto

lemma re_search_append: "match_here p w \<Longrightarrow> re_search p (pre @ w @ post)"
proof (induction pre)
  case Nil
  show ?case
  proof (cases "w @ post")
    case Nil
    with Nil.prems show ?thesis by simp
  next
    case (Cons c s)
    from match_here_append [OF Nil.prems, of post] Cons show ?thesis by simp
  qed
next
  case (Cons c pre)
  then show ?case by simp
qed

lemma lower_append: "lower (a @ b) = lower a @ lower b"
  by (simp add: lower_def)

lemma deny_literals_matched:
  "\<forall>l \<in> set deny_literals. \<exists>p \<in> set UNSAFE_PATTERNS. match_here p l"
  by code_simp

lemma contains_unsafe_arguments_literal:
  assumes "lower w \<in> set deny_literals"
  shows "contains_unsafe_arguments (pre @ w @ post)"
proof -
  from assms deny_literals_matched obtain p where
    p: "p \<in> set UNSAFE_PATTERNS" and m: "match_here p (lower w)"
    by blast
  from re_search_append [OF m] have "re_search p (lower (pre @ w @ post))"
    by (simp add: lower_append)
  with p show ?thesis
    by (auto simp: contains_unsafe_arguments_def list_ex_iff)
qed

text \<open>
  C1. Code that contains a deny-listed text (in any letter case) is answered with
  \<open>[sandbox error: unsafe code patterns detected]\<close>: it is neither compiled nor executed,
  and no tool call reaches the dispatcher.
\<close>

theorem deny_listed_code_is_never_run:
  assumes "lower w \<in> set deny_literals"
  shows "run_python_sandbox env (pre @ w @ post) dispatcher ctx =
           \<lparr>returned = Returns ''[sandbox error: unsafe code patterns detected]'',
            executed = False, gateway = new_SandboxMCP, context_after = ctx\<rparr>
         \<and> dispatched (gateway (run_python_sandbox env (pre @ w @ post) dispatcher ctx)) = []"
  using contains_unsafe_arguments_literal [OF assms, of pre post]
  by (simp add: run_python_sandbox_def new_SandboxMCP_def)

theorem deny_listed_code_is_never_run_witness:
  "lower ''eval('' \<in> set deny_literals
   \<and> run_python_sandbox
        \<lparr>ast_parse = \<lambda>_. Parsed (Module []),
         exec_plan = \<lambda>_. Solve False (CallTool ''shell'' (PyObj ''rm'') (\<lambda>_. Return (PyObj ''done''))),
         py_str = \<lambda>_. Inr ''done'', json_dumps = \<lambda>_. Inr ''done'',
         clean_output_structure = \<lambda>s. s\<rparr>
        (''def solve(): return '' @ ''eval('' @ ''input())'') (\<lambda>_ _. Inr (PyObj ''ok'')) NoContext
      = \<lparr>returned = Returns ''[sandbox error: unsafe code patterns detected]'',
         executed = False, gateway = new_SandboxMCP, context_after = NoContext\<rparr>"
proof -
  have l: "lower ''eval('' \<in> set deny_literals" by code_simp
  from deny_listed_code_is_never_run [OF l] l show ?thesis by blast
qed

lemma call_tool_count:
  "call_count (snd (call_tool d n a self)) = call_count self + 1"
  by (simp add: call_tool_def Let_def)

lemma call_tool_dispatched:
  assumes "length (dispatched self) = min (call_count self) MAX_TOOL_CALLS_PER_PLAN"
  shows "length (dispatched (snd (call_tool d n a self)))
         = min (call_count (snd (call_tool d n a self))) MAX_TOOL_CALLS_PER_PLAN"
  using assms by (simp add: call_tool_def Let_def)

lemma call_tool_over_quota:
  assumes "MAX_TOOL_CALLS_PER_PLAN \<le> call_count self"
  shows "call_tool d n a self = (Inl quota_error, self\<lparr>call_count := call_count self + 1\<rparr>)"
  using assms by (simp add: call_tool_def Let_def)

lemma run_prog_dispatched:
  assumes "only_call_tool p"
    and "length (dispatched self) = min (call_count self) MAX_TOOL_CALLS_PER_PLAN"
  shows "length (dispatched (snd (run_prog p d self)))
         = min (call_count (snd (run_prog p d self))) MAX_TOOL_CALLS_PER_PLAN"
  using assms
proof (induction p arbitrary: self)
  case (CallTool n a k)
  obtain r self' where c: "call_tool d n a self = (r, self')" by (cases "call_tool d n a self")
  from call_tool_dispatched [OF CallTool.prems(2), of d n a] c
  have l: "length (dispatched self') = min (call_count self') MAX_TOOL_CALLS_PER_PLAN" by simp
  from CallTool.prems(1) have o: "only_call_tool (k r)" by simp
  from CallTool.IH [OF rangeI o l] c show ?case by simp
qed simp_all

lemma sandbox_try_dispatched:
  assumes "\<And>c p. exec_plan env code = Solve c p \<Longrightarrow> only_call_tool p"
  shows "length (dispatched (snd (sandbox_try env code d ctx)))
   = min (call_count (snd (sandbox_try env code d ctx))) MAX_TOOL_CALLS_PER_PLAN"
proof -
  have new: "length (dispatched new_SandboxMCP) = min (call_count new_SandboxMCP) MAX_TOOL_CALLS_PER_PLAN"
    by (simp add: new_SandboxMCP_def)
  show ?thesis
  proof (cases "exec_plan env code")
    case (Solve c p)
    from assms [OF Solve] have "only_call_tool p" .
    from run_prog_dispatched [OF this new, of d] Solve show ?thesis
      by (auto simp: sandbox_try_def Let_def split: prod.splits outcome.splits sum.splits)
  qed (simp_all add: sandbox_try_def new)
qed

lemma gateway_dispatched:
  assumes "\<And>c p. exec_plan env code = Solve c p \<Longrightarrow> only_call_tool p"
  shows "length (dispatched (gateway (run_python_sandbox env code d ctx)))
   = min (call_count (gateway (run_python_sandbox env code d ctx))) MAX_TOOL_CALLS_PER_PLAN"
proof -
  have new: "length (dispatched new_SandboxMCP) = min (call_count new_SandboxMCP) MAX_TOOL_CALLS_PER_PLAN"
    by (simp add: new_SandboxMCP_def)
  from sandbox_try_dispatched [of env code d ctx, OF assms] new show ?thesis
    by (auto simp: run_python_sandbox_def split: prod.splits attempt.splits)
qed

lemma only_call_tool_plan_passing: "only_call_tool (plan_passing n)"
  by (induction n) (auto split: sum.splits)

lemma sandbox_accepted:
  assumes "\<not> contains_unsafe_arguments code" and "fst (validate_solve_code (ast_parse env) code)"
  shows "run_python_sandbox env code d ctx =
     (case sandbox_try env code d ctx of
        (Ok (result_str, ctx'), self) \<Rightarrow>
          \<lparr>returned = Returns result_str, executed = True, gateway = self, context_after = ctx'\<rparr>
      | (Exc e, self) \<Rightarrow>
          \<lparr>returned =
             (if e = TimeoutError then Returns ''[sandbox error: execution timeout]''
              else if is_Exception e
              then (case str_exc e of
                      Inr m \<Rightarrow> Returns (''[sandbox error: '' @ m @ '']'')
                    | Inl e' \<Rightarrow> Raises e')
              else Raises e),
           executed = True, gateway = self, context_after = ctx\<rparr>
      | (Hang, self) \<Rightarrow>
          \<lparr>returned = NeverReturns, executed = True, gateway = self, context_after = ctx\<rparr>)"
proof -
  from assms(2) obtain errs where v: "validate_solve_code (ast_parse env) code = (True, errs)"
    by (cases "validate_solve_code (ast_parse env) code") auto
  show ?thesis
    by (simp add: run_python_sandbox_def assms(1) v)
qed

lemma validate_from_parts:
  assumes "\<not> contains_unsafe_arguments code"
    and "card (set (findall_tools 0 code)) \<le> 3"
    and "\<forall>name \<in> set (findall_tools 0 code). count_list (findall_tools 0 code) name \<le> 2"
    and "lint_solve_function parse code = (True, [])"
  shows "validate_solve_code parse code = (True, [])"
  using assms
  by (auto simp: validate_solve_code_def exceeds_tool_diversity_limit_def count_distinct_tools_def
      has_excessive_repeats_def list_ex_iff Let_def)

lemma loop_code_safe: "\<not> contains_unsafe_arguments loop_code"
  by code_simp

lemma loop_code_tools: "findall_tools 0 loop_code = [''add'']"
  by code_simp

lemma loop_code_valid: "validate_solve_code (\<lambda>_. Parsed loop_tree) loop_code = (True, [])"
proof (rule validate_from_parts [OF loop_code_safe])
  show "lint_solve_function (\<lambda>_. Parsed loop_tree) loop_code = (True, [])" by code_simp
qed (simp_all add: loop_code_tools)

lemma try_code_safe: "\<not> contains_unsafe_arguments try_code"
  by code_simp

lemma try_code_tools: "findall_tools 0 try_code = [''add'']"
  by code_simp

lemma try_code_valid: "validate_solve_code (\<lambda>_. Parsed try_tree) try_code = (True, [])"
proof (rule validate_from_parts [OF try_code_safe])
  show "lint_solve_function (\<lambda>_. Parsed try_tree) try_code = (True, [])" by code_simp
qed (simp_all add: try_code_tools)

lemma plan_handling_run:
  "run_prog (plan_handling 11) example_dispatcher new_SandboxMCP =
     (Done (PyObj ''done''),
      \<lparr>call_count = 11, tools_called = replicate 10 ''add'',
       dispatched = replicate 10 (''add'', PyObj ''{}'')\<rparr>)"
  by code_simp

lemma plan_passing_run:
  "run_prog (plan_passing 11) example_dispatcher new_SandboxMCP =
     (Raised quota_error,
      \<lparr>call_count = 11, tools_called = replicate 10 ''add'',
       dispatched = replicate 10 (''add'', PyObj ''{}'')\<rparr>)"
  by code_simp

lemma try_code_result:
  "run_python_sandbox (example_env try_tree (Solve True (plan_handling 11)))
     try_code example_dispatcher NoContext =
   \<lparr>returned = Returns ''done'', executed = True,
    gateway = \<lparr>call_count = 11, tools_called = replicate 10 ''add'',
       dispatched = replicate 10 (''add'', PyObj ''{}'')\<rparr>,
    context_after = NoContext\<rparr>"
proof -
  have s: "strip ''done'' = ''done''" by code_simp
  have v: "fst (validate_solve_code (ast_parse (example_env try_tree (Solve True (plan_handling 11)))) try_code)"
    by (simp add: example_env_def try_code_valid)
  show ?thesis
    unfolding sandbox_accepted [OF try_code_safe v]
    by (simp add: sandbox_try_def example_env_def plan_handling_run format_result_def s)
qed

lemma reset_code_safe: "\<not> contains_unsafe_arguments reset_code"
  by code_simp

lemma reset_code_tools: "findall_tools 0 reset_code = [''add'']"
  by code_simp

lemma reset_code_valid: "validate_solve_code (\<lambda>_. Parsed reset_tree) reset_code = (True, [])"
proof (rule validate_from_parts [OF reset_code_safe])
  show "lint_solve_function (\<lambda>_. Parsed reset_tree) reset_code = (True, [])" by code_simp
qed (simp_all add: reset_code_tools)

lemma plan_resetting_run:
  "run_prog plan_resetting example_dispatcher new_SandboxMCP =
     (Done (PyObj ''done''),
      \<lparr>call_count = 1, tools_called = replicate 11 ''add'',
       dispatched = replicate 11 (''add'', PyObj ''{}'')\<rparr>)"
  by code_simp

lemma reset_code_result:
  "run_python_sandbox (example_env reset_tree (Solve True plan_resetting))
     reset_code example_dispatcher NoContext =
   \<lparr>returned = Returns ''done'', executed = True,
    gateway = \<lparr>call_count = 1, tools_called = replicate 11 ''add'',
       dispatched = replicate 11 (''add'', PyObj ''{}'')\<rparr>,
    context_after = NoContext\<rparr>"
proof -
  have s: "strip ''done'' = ''done''" by code_simp
  have v: "fst (validate_solve_code (ast_parse (example_env reset_tree (Solve True plan_resetting))) reset_code)"
    by (simp add: example_env_def reset_code_valid)
  show ?thesis
    unfolding sandbox_accepted [OF reset_code_safe v]
    by (simp add: sandbox_try_def example_env_def plan_resetting_run format_result_def s)
qed

text \<open>
  C8, as stated, fails twice. The handle is an ordinary object in the hands of the plan:
  \<open>reset_code\<close> makes ten calls, sets \<open>mcp.call_count\<close> back to 0 and calls again, so
  eleven calls reach the real dispatcher in one execution. And where the plan handles the
  exception of the call over the quota, as \<open>try_code\<close> does, its eleven calls leave the
  counter at 11, ten reach the dispatcher, and the executor returns the plan's own result
  \<open>done\<close>, not an error string.
\<close>

theorem quota_overrun_error_string_counterexample:
  "\<not> (\<forall>env code d ctx.
        length (dispatched (gateway (run_python_sandbox env code d ctx))) \<le> MAX_TOOL_CALLS_PER_PLAN)
   \<and> \<not> (\<forall>env code d ctx.
        MAX_TOOL_CALLS_PER_PLAN < call_count (gateway (run_python_sandbox env code d ctx))
        \<longrightarrow> (\<exists>msg. returned (run_python_sandbox env code d ctx)
                    = Returns (''[sandbox error: '' @ msg)))"
proof (rule conjI)
  let ?r = "run_python_sandbox (example_env reset_tree (Solve True plan_resetting))
              reset_code example_dispatcher NoContext"
  have "length (dispatched (gateway ?r)) = 11" by (simp add: reset_code_result)
  then have "\<not> length (dispatched (gateway ?r)) \<le> MAX_TOOL_CALLS_PER_PLAN"
    by (simp add: MAX_TOOL_CALLS_PER_PLAN_def)
  then show "\<not> (\<forall>env code d ctx.
        length (dispatched (gateway (run_python_sandbox env code d ctx))) \<le> MAX_TOOL_CALLS_PER_PLAN)"
    by blast
next
  show "\<not> (\<forall>env code d ctx.
        MAX_TOOL_CALLS_PER_PLAN < call_count (gateway (run_python_sandbox env code d ctx))
        \<longrightarrow> (\<exists>msg. returned (run_python_sandbox env code d ctx)
                    = Returns (''[sandbox error: '' @ msg)))"
  proof
    assume a: "\<forall>env code d ctx.
        MAX_TOOL_CALLS_PER_PLAN < call_count (gateway (run_python_sandbox env code d ctx))
        \<longrightarrow> (\<exists>msg. returned (run_python_sandbox env code d ctx)
                    = Returns (''[sandbox error: '' @ msg))"
    let ?r = "run_python_sandbox (example_env try_tree (Solve True (plan_handling 11)))
              try_code example_dispatcher NoContext"
    have r: "returned ?r = Returns ''done''" by (simp add: try_code_result)
    have c: "call_count (gateway ?r) = 11" by (simp add: try_code_result)
    have "MAX_TOOL_CALLS_PER_PLAN < call_count (gateway ?r)"
      unfolding c by (simp add: MAX_TOOL_CALLS_PER_PLAN_def)
    with a have "\<exists>msg. returned ?r = Returns (''[sandbox error: '' @ msg)" by blast
    with r show False by simp
  qed
qed

text \<open>
  C8, amended. For code that uses the handle through \<open>mcp.call_tool\<close> only (it neither
  assigns \<open>mcp.call_count\<close> nor calls \<open>mcp.dispatcher\<close> itself, and leaves the handle and
  the quota as they are), in one execution of \<open>run_python_sandbox\<close> the handle counts every
  \<open>call_tool\<close> invocation and forwards the first 10 only: the number of calls that reach
  the dispatcher is the smaller of the call count and 10. An invocation of \<open>call_tool\<close>
  made at a count of 10 or more raises the quota error before any dispatch. When the plan
  of accepted code ends with that error, the executor returns
  \<open>[sandbox error: Exceeded max tool calls (10) in solve() plan.]\<close>.
\<close>

theorem gateway_quota:
  "((\<forall>c p. exec_plan env code = Solve c p \<longrightarrow> only_call_tool p) \<longrightarrow>
      length (dispatched (gateway (run_python_sandbox env code d ctx)))
        = min (call_count (gateway (run_python_sandbox env code d ctx))) MAX_TOOL_CALLS_PER_PLAN)
   \<and> (\<forall>(self :: SandboxMCP) n a. MAX_TOOL_CALLS_PER_PLAN \<le> call_count self \<longrightarrow>
          call_tool d n a self = (Inl quota_error, self\<lparr>call_count := call_count self + 1\<rparr>))
   \<and> (\<forall>c p self. \<not> contains_unsafe_arguments code
          \<and> fst (validate_solve_code (ast_parse env) code)
          \<and> exec_plan env code = Solve c p
          \<and> run_prog p d new_SandboxMCP = (Raised quota_error, self) \<longrightarrow>
          returned (run_python_sandbox env code d ctx)
            = Returns ''[sandbox error: Exceeded max tool calls (10) in solve() plan.]'')"
proof (intro conjI allI impI)
  assume "\<forall>c p. exec_plan env code = Solve c p \<longrightarrow> only_call_tool p"
  then have "\<And>c p. exec_plan env code = Solve c p \<Longrightarrow> only_call_tool p" by blast
  then show "length (dispatched (gateway (run_python_sandbox env code d ctx)))
     = min (call_count (gateway (run_python_sandbox env code d ctx))) MAX_TOOL_CALLS_PER_PLAN"
    by (rule gateway_dispatched)
next
  fix self :: SandboxMCP and n a
  assume "MAX_TOOL_CALLS_PER_PLAN \<le> call_count self"
  then show "call_tool d n a self = (Inl quota_error, self\<lparr>call_count := call_count self + 1\<rparr>)"
    by (rule call_tool_over_quota)
next
  fix c p self
  assume h: "\<not> contains_unsafe_arguments code
          \<and> fst (validate_solve_code (ast_parse env) code)
          \<and> exec_plan env code = Solve c p
          \<and> run_prog p d new_SandboxMCP = (Raised quota_error, self)"
  then show "returned (run_python_sandbox env code d ctx)
            = Returns ''[sandbox error: Exceeded max tool calls (10) in solve() plan.]''"
    by (auto simp: run_python_sandbox_def sandbox_try_def quota_error_def split: prod.splits)
qed

theorem gateway_quota_witness:
  "only_call_tool (plan_passing 11)
   \<and> MAX_TOOL_CALLS_PER_PLAN \<le> call_count \<lparr>call_count = 10, tools_called = [], dispatched = []\<rparr>
   \<and> call_tool example_dispatcher ''add'' (PyObj ''{}'') \<lparr>call_count = 10, tools_called = [], dispatched = []\<rparr>
       = (Inl quota_error, \<lparr>call_count = 11, tools_called = [], dispatched = []\<rparr>)
   \<and> \<not> contains_unsafe_arguments loop_code
   \<and> fst (validate_solve_code (ast_parse (example_env loop_tree (Solve True (plan_passing 11)))) loop_code)
   \<and> exec_plan (example_env loop_tree (Solve True (plan_passing 11))) loop_code = Solve True (plan_passing 11)
   \<and> fst (run_prog (plan_passing 11) example_dispatcher new_SandboxMCP) = Raised quota_error
   \<and> returned (run_python_sandbox (example_env loop_tree (Solve True (plan_passing 11))) loop_code
         example_dispatcher NoContext)
       = Returns ''[sandbox error: Exceeded max tool calls (10) in solve() plan.]''
   \<and> length (dispatched (gateway (run_python_sandbox (example_env loop_tree (Solve True (plan_passing 11)))
         loop_code example_dispatcher NoContext))) = 10"
proof -
  let ?env = "example_env loop_tree (Solve True (plan_passing 11))"
  let ?self = "\<lparr>call_count = 10, tools_called = [], dispatched = []\<rparr>"
  have h0: "only_call_tool (plan_passing 11)" by (rule only_call_tool_plan_passing)
  have h1: "MAX_TOOL_CALLS_PER_PLAN \<le> call_count ?self" by code_simp
  have h2: "\<not> contains_unsafe_arguments loop_code" by (rule loop_code_safe)
  have h3: "fst (validate_solve_code (ast_parse ?env) loop_code)"
    by (simp add: example_env_def loop_code_valid)
  have h4: "exec_plan ?env loop_code = Solve True (plan_passing 11)" by (simp add: example_env_def)
  from h0 h4 have h0': "\<forall>c p. exec_plan ?env loop_code = Solve c p \<longrightarrow> only_call_tool p"
    by simp
  have h5': "fst (run_prog (plan_passing 11) example_dispatcher new_SandboxMCP) = Raised quota_error"
    by (simp add: plan_passing_run)
  then have h5: "run_prog (plan_passing 11) example_dispatcher new_SandboxMCP
      = (Raised quota_error, snd (run_prog (plan_passing 11) example_dispatcher new_SandboxMCP))"
    by (metis prod.collapse)
  have h6: "call_count (gateway (run_python_sandbox ?env loop_code example_dispatcher NoContext)) = 11"
    unfolding sandbox_accepted [OF h2 h3]
    by (simp add: sandbox_try_def example_env_def plan_passing_run)
  note q = gateway_quota [where env = ?env and code = loop_code and d = example_dispatcher and ctx = NoContext]
  from q h1 have "call_tool example_dispatcher ''add'' (PyObj ''{}'') ?self
       = (Inl quota_error, ?self\<lparr>call_count := call_count ?self + 1\<rparr>)" by blast
  moreover from q h2 h3 h4 h5
  have "returned (run_python_sandbox ?env loop_code example_dispatcher NoContext)
       = Returns ''[sandbox error: Exceeded max tool calls (10) in solve() plan.]''" by blast
  moreover from q h0' h6
  have "length (dispatched (gateway (run_python_sandbox ?env loop_code example_dispatcher NoContext))) = 10"
    by (simp add: MAX_TOOL_CALLS_PER_PLAN_def)
  ultimately show ?thesis using h0 h1 h2 h3 h4 h5' by simp
qed




lemma assign_code_safe: "\<not> contains_unsafe_arguments assign_code"
  by code_simp

lemma assign_code_tools: "findall_tools 0 assign_code = []"
  by code_simp

lemma assign_code_valid: "validate_solve_code (\<lambda>_. Parsed assign_tree) assign_code = (True, [])"
proof (rule validate_from_parts [OF assign_code_safe])
  show "lint_solve_function (\<lambda>_. Parsed assign_tree) assign_code = (True, [])" by code_simp
qed (simp_all add: assign_code_tools)

lemma deep_code_safe: "\<not> contains_unsafe_arguments deep_code"
  by code_simp

lemma deep_code_tools: "findall_tools 0 deep_code = []"
  by code_simp

lemma deep_code_valid: "validate_solve_code (\<lambda>_. Parsed deep_tree) deep_code = (True, [])"
proof (rule validate_from_parts [OF deep_code_safe])
  show "lint_solve_function (\<lambda>_. Parsed deep_tree) deep_code = (True, [])" by code_simp
qed (simp_all add: deep_code_tools)


text \<open>
  A second way out: the handler \<open>except Exception as e\<close> formats \<open>e\<close>, and that can raise.
  The plan \<open>deep_code\<close> passes both checks and ends with a \<open>ValueError\<close> that derives
  from \<open>Exception\<close>; forming its text raises \<open>RecursionError\<close> inside the handler, which
  the caller gets.
\<close>

lemma unprintable_exception_escapes:
  "is_Exception deep_error
   \<and> returned (run_python_sandbox (example_env deep_tree (Solve False (Raise deep_error)))
                 deep_code example_dispatcher NoContext)
     = Raises (RuntimeError ''maximum recursion depth exceeded while getting the repr of an object'')"
proof -
  let ?env = "example_env deep_tree (Solve False (Raise deep_error))"
  have v: "fst (validate_solve_code (ast_parse ?env) deep_code)"
    by (simp add: example_env_def deep_code_valid)
  show ?thesis
    unfolding sandbox_accepted [OF deep_code_safe v]
    by (simp add: sandbox_try_def example_env_def deep_error_def)
qed



section \<open>Properties of the structural check\<close>

lemma walk_self: "n \<in> set (walk n)"
  by (cases n) simp_all

lemma fold_visit_mono:
  assumes "\<And>x l. x \<in> set xs \<Longrightarrow> length (errors l) \<le> length (errors (visit x l))"
  shows "length (errors l) \<le> length (errors (fold visit xs l))"
  using assms
proof (induction xs arbitrary: l)
  case Nil
  show ?case by simp
next
  case (Cons x xs)
  have "length (errors l) \<le> length (errors (visit x l))" by (rule Cons.prems) simp
  also have "\<dots> \<le> length (errors (fold visit xs (visit x l)))"
    by (rule Cons.IH) (simp add: Cons.prems)
  finally show ?case by simp
qed

lemma visit_errors_mono: "length (errors l) \<le> length (errors (visit n l))"
proof (induction n arbitrary: l)
  case (FunctionDef name cs)
  from fold_visit_mono [of cs "l\<lparr>in_solve := True\<rparr>"] FunctionDef.IH
  show ?case by (simp add: add_error_def)
next
  case (Call f args)
  let ?l = "if in_solve l
        then (case f of
                Name ident \<Rightarrow>
                  if ident \<in> set dangerous
                  then add_error (''Dangerous function call not allowed: '' @ ident) l
                  else l
              | _ \<Rightarrow> l)
        else l"
  have a: "length (errors l) \<le> length (errors ?l)"
    by (simp add: add_error_def split: node.splits)
  have "length (errors ?l) \<le> length (errors (fold visit (f # args) ?l))"
    by (rule fold_visit_mono) (use Call.IH in auto)
  with a show ?case by (simp del: fold_simps)
next
  case (While cs)
  let ?l = "if in_solve l
        then (if \<not> list_ex (\<lambda>n. n = Break) (walk (While cs))
              then add_error ''While loop without break statement (potential infinite loop)'' l
              else l)
        else l"
  have a: "length (errors l) \<le> length (errors ?l)"
    by (simp add: add_error_def)
  have "length (errors ?l) \<le> length (errors (fold visit cs ?l))"
    by (rule fold_visit_mono) (use While.IH in auto)
  with a show ?case by (simp del: walk.simps)
qed (simp_all add: add_error_def fold_visit_mono)


lemma fold_visit_in_solve:
  assumes "\<And>x l. x \<in> set xs \<Longrightarrow> in_solve l \<Longrightarrow> in_solve (visit x l)" and "in_solve l"
  shows "in_solve (fold visit xs l)"
  using assms
proof (induction xs arbitrary: l)
  case Nil
  then show ?case by simp
next
  case (Cons x xs)
  have "in_solve (visit x l)" by (rule Cons.prems(1)) (simp_all add: Cons.prems(2))
  then have "in_solve (fold visit xs (visit x l))"
    by (rule Cons.IH [rotated]) (simp add: Cons.prems(1))
  then show ?case by simp
qed

lemma visit_keeps_in_solve:
  assumes "\<forall>m \<in> set (walk n). \<not> nested_solve m" and "in_solve l"
  shows "in_solve (visit n l)"
  using assms
proof (induction n arbitrary: l)
  case (FunctionDef name cs)
  from FunctionDef.prems(1) have "name \<noteq> ''solve''" by (simp add: nested_solve_def)
  with FunctionDef.prems(2) show ?case by (simp add: add_error_def)
next
  case (Call f args)
  let ?l = "case f of
                Name ident \<Rightarrow>
                  if ident \<in> set dangerous
                  then add_error (''Dangerous function call not allowed: '' @ ident) l
                  else l
              | _ \<Rightarrow> l"
  have a: "in_solve ?l" using Call.prems(2) by (simp add: add_error_def split: node.splits)
  have "in_solve (fold visit (f # args) ?l)"
  proof (rule fold_visit_in_solve [OF _ a])
    fix x and l' :: linter assume x: "x \<in> set (f # args)" and l': "in_solve l'"
    from x Call.prems(1) have "\<forall>m \<in> set (walk x). \<not> nested_solve m" by auto
    with x l' Call.IH show "in_solve (visit x l')" by auto
  qed
  with Call.prems(2) show ?case by (simp del: fold_simps)
next
  case (While cs)
  let ?l = "if \<not> list_ex (\<lambda>n. n = Break) (walk (While cs))
              then add_error ''While loop without break statement (potential infinite loop)'' l
              else l"
  have a: "in_solve ?l" using While.prems(2) by (simp add: add_error_def)
  have "in_solve (fold visit cs ?l)"
  proof (rule fold_visit_in_solve [OF _ a])
    fix x and l' :: linter assume x: "x \<in> set cs" and l': "in_solve l'"
    from x While.prems(1) have "\<forall>m \<in> set (walk x). \<not> nested_solve m" by auto
    with x l' While.IH show "in_solve (visit x l')" by auto
  qed
  with While.prems(2) show ?case by (simp del: walk.simps)
next
  case (Module cs)
  have "in_solve (fold visit cs l)"
  proof (rule fold_visit_in_solve [OF _ Module.prems(2)])
    fix x and l' :: linter assume x: "x \<in> set cs" and l': "in_solve l'"
    from x Module.prems(1) have "\<forall>m \<in> set (walk x). \<not> nested_solve m" by auto
    with x l' Module.IH show "in_solve (visit x l')" by auto
  qed
  then show ?case by simp
next
  case (AsyncFunctionDef name cs)
  have "in_solve (fold visit cs l)"
  proof (rule fold_visit_in_solve [OF _ AsyncFunctionDef.prems(2)])
    fix x and l' :: linter assume x: "x \<in> set cs" and l': "in_solve l'"
    from x AsyncFunctionDef.prems(1) have "\<forall>m \<in> set (walk x). \<not> nested_solve m" by auto
    with x l' AsyncFunctionDef.IH show "in_solve (visit x l')" by auto
  qed
  then show ?case by simp
next
  case (Other cs)
  have "in_solve (fold visit cs l)"
  proof (rule fold_visit_in_solve [OF _ Other.prems(2)])
    fix x and l' :: linter assume x: "x \<in> set cs" and l': "in_solve l'"
    from x Other.prems(1) have "\<forall>m \<in> set (walk x). \<not> nested_solve m" by auto
    with x l' Other.IH show "in_solve (visit x l')" by auto
  qed
  then show ?case by simp
qed (simp_all add: add_error_def)

lemma fold_visit_strict:
  assumes keep: "\<And>y l. y \<in> set xs \<Longrightarrow> in_solve l \<Longrightarrow> in_solve (visit y l)"
    and x: "x \<in> set xs"
    and strict: "\<And>l. in_solve l \<Longrightarrow> length (errors l) < length (errors (visit x l))"
    and l: "in_solve l"
  shows "length (errors l) < length (errors (fold visit xs l))"
  using keep x l
proof (induction xs arbitrary: l)
  case Nil
  then show ?case by simp
next
  case (Cons y ys)
  show ?case
  proof (cases "x = y")
    case True
    have "length (errors l) < length (errors (visit y l))"
      using strict [OF Cons.prems(3)] True by simp
    also have "\<dots> \<le> length (errors (fold visit ys (visit y l)))"
      by (rule fold_visit_mono) (rule visit_errors_mono)
    finally show ?thesis by simp
  next
    case False
    with Cons.prems(2) have xin: "x \<in> set ys" by simp
    have k: "in_solve (visit y l)" by (rule Cons.prems(1)) (simp_all add: Cons.prems(3))
    have "length (errors l) \<le> length (errors (visit y l))" by (rule visit_errors_mono)
    also have "\<dots> < length (errors (fold visit ys (visit y l)))"
      by (rule Cons.IH [OF _ xin k]) (simp add: Cons.prems(1))
    finally show ?thesis by simp
  qed
qed


lemma children_strict:
  assumes IH: "\<And>c l. c \<in> set cs \<Longrightarrow> \<exists>m \<in> set (walk c). flagged m
                 \<Longrightarrow> \<forall>m \<in> set (walk c). \<not> nested_solve m \<Longrightarrow> in_solve l
                 \<Longrightarrow> length (errors l) < length (errors (visit c l))"
    and bad: "\<exists>c \<in> set cs. \<exists>m \<in> set (walk c). flagged m"
    and clean: "\<forall>c \<in> set cs. \<forall>m \<in> set (walk c). \<not> nested_solve m"
    and l: "in_solve l"
  shows "length (errors l) < length (errors (fold visit cs l))"
proof -
  from bad obtain c where c: "c \<in> set cs" and m: "\<exists>m \<in> set (walk c). flagged m" by blast
  show ?thesis
  proof (rule fold_visit_strict [OF _ c _ l])
    fix y and l' :: linter
    assume "y \<in> set cs" and "in_solve l'"
    with clean show "in_solve (visit y l')" by (auto intro: visit_keeps_in_solve)
  next
    fix l' :: linter
    assume "in_solve l'"
    with IH [OF c m] clean c show "length (errors l') < length (errors (visit c l'))" by blast
  qed
qed

lemma visit_flags:
  assumes "\<exists>m \<in> set (walk n). flagged m" and "\<forall>m \<in> set (walk n). \<not> nested_solve m"
    and "in_solve l"
  shows "length (errors l) < length (errors (visit n l))"
  using assms
proof (induction n arbitrary: l)
  case (FunctionDef name cs)
  from FunctionDef.prems(2) have "name \<noteq> ''solve''" by (simp add: nested_solve_def)
  with FunctionDef.prems(3) show ?case by (simp add: add_error_def)
next
  case (Module cs)
  have "length (errors l) < length (errors (fold visit cs l))"
  proof (rule children_strict [OF _ _ _ Module.prems(3)])
    show "\<exists>c \<in> set cs. \<exists>m \<in> set (walk c). flagged m"
      using Module.prems(1) by (auto simp: flagged_def)
    show "\<forall>c \<in> set cs. \<forall>m \<in> set (walk c). \<not> nested_solve m"
      using Module.prems(2) by auto
  qed (use Module.IH in blast)
  then show ?case by simp
next
  case (AsyncFunctionDef name cs)
  have "length (errors l) < length (errors (fold visit cs l))"
  proof (rule children_strict [OF _ _ _ AsyncFunctionDef.prems(3)])
    show "\<exists>c \<in> set cs. \<exists>m \<in> set (walk c). flagged m"
      using AsyncFunctionDef.prems(1) by (auto simp: flagged_def)
    show "\<forall>c \<in> set cs. \<forall>m \<in> set (walk c). \<not> nested_solve m"
      using AsyncFunctionDef.prems(2) by auto
  qed (use AsyncFunctionDef.IH in blast)
  then show ?case by simp
next
  case (Other cs)
  have "length (errors l) < length (errors (fold visit cs l))"
  proof (rule children_strict [OF _ _ _ Other.prems(3)])
    show "\<exists>c \<in> set cs. \<exists>m \<in> set (walk c). flagged m"
      using Other.prems(1) by (auto simp: flagged_def)
    show "\<forall>c \<in> set cs. \<forall>m \<in> set (walk c). \<not> nested_solve m"
      using Other.prems(2) by auto
  qed (use Other.IH in blast)
  then show ?case by simp
next
  case (ClassDef name cs)
  then show ?case by (simp add: add_error_def)
next
  case Import
  then show ?case by (simp add: add_error_def)
next
  case ImportFrom
  then show ?case by (simp add: add_error_def)
next
  case (Name x)
  then show ?case by (simp add: flagged_def)
next
  case Break
  then show ?case by (simp add: flagged_def)
next
  case (While cs)
  show ?case
  proof (cases "flagged (While cs)")
    case True
    then have nb: "\<not> list_ex (\<lambda>m. m = Break) (walk (While cs))" by (simp add: flagged_def)
    let ?l = "add_error ''While loop without break statement (potential infinite loop)'' l"
    have "length (errors l) < length (errors ?l)" by (simp add: add_error_def)
    also have "\<dots> \<le> length (errors (fold visit cs ?l))"
      by (rule fold_visit_mono) (rule visit_errors_mono)
    finally show ?thesis using While.prems(3) nb by (simp del: walk.simps)
  next
    case False
    then have hb: "list_ex (\<lambda>m. m = Break) (walk (While cs))" by (simp add: flagged_def)
    have "length (errors l) < length (errors (fold visit cs l))"
    proof (rule children_strict [OF _ _ _ While.prems(3)])
      show "\<exists>c \<in> set cs. \<exists>m \<in> set (walk c). flagged m"
        using While.prems(1) False by auto
      show "\<forall>c \<in> set cs. \<forall>m \<in> set (walk c). \<not> nested_solve m"
        using While.prems(2) by auto
    qed (use While.IH in blast)
    then show ?thesis using While.prems(3) hb by (simp del: walk.simps)
  qed
next
  case (Call f args)
  show ?case
  proof (cases "flagged (Call f args)")
    case True
    then obtain ident where f: "f = Name ident" and d: "ident \<in> set dangerous"
      by (auto simp: flagged_def split: node.splits)
    let ?l = "add_error (''Dangerous function call not allowed: '' @ ident) l"
    have "length (errors l) < length (errors ?l)" by (simp add: add_error_def)
    also have "\<dots> \<le> length (errors (fold visit (f # args) ?l))"
      by (rule fold_visit_mono) (rule visit_errors_mono)
    finally show ?thesis using Call.prems(3) f d by (simp del: fold_simps)
  next
    case False
    then have same: "(case f of
                Name ident \<Rightarrow>
                  if ident \<in> set dangerous
                  then add_error (''Dangerous function call not allowed: '' @ ident) l
                  else l
              | _ \<Rightarrow> l) = l"
      by (auto simp: flagged_def split: node.splits)
    have "length (errors l) < length (errors (fold visit (f # args) l))"
    proof (rule children_strict [OF _ _ _ Call.prems(3)])
      show "\<exists>c \<in> set (f # args). \<exists>m \<in> set (walk c). flagged m"
        using Call.prems(1) False by auto
      show "\<forall>c \<in> set (f # args). \<forall>m \<in> set (walk c). \<not> nested_solve m"
        using Call.prems(2) by auto
    next
      fix c and l' :: linter
      assume c: "c \<in> set (f # args)" and b: "\<exists>m \<in> set (walk c). flagged m"
        and n: "\<forall>m \<in> set (walk c). \<not> nested_solve m" and i: "in_solve l'"
      show "length (errors l') < length (errors (visit c l'))"
      proof (cases "c = f")
        case True
        with Call.IH(1) [of l'] b n i show ?thesis by blast
      next
        case False
        with c have "c \<in> set args" by simp
        from Call.IH(2) [OF this b n i] show ?thesis .
      qed
    qed
    then show ?thesis using Call.prems(3) same by (simp del: fold_simps)
  qed
qed


lemma fold_visit_strict_any:
  assumes x: "x \<in> set xs"
    and strict: "\<And>l. length (errors l) < length (errors (visit x l))"
  shows "length (errors l) < length (errors (fold visit xs l))"
  using x
proof (induction xs arbitrary: l)
  case Nil
  then show ?case by simp
next
  case (Cons y ys)
  show ?case
  proof (cases "x = y")
    case True
    have "length (errors l) < length (errors (visit y l))" using strict [of l] True by simp
    also have "\<dots> \<le> length (errors (fold visit ys (visit y l)))"
      by (rule fold_visit_mono) (rule visit_errors_mono)
    finally show ?thesis by simp
  next
    case False
    with Cons.prems have xin: "x \<in> set ys" by simp
    have "length (errors l) \<le> length (errors (visit y l))" by (rule visit_errors_mono)
    also have "\<dots> < length (errors (fold visit ys (visit y l)))" by (rule Cons.IH [OF xin])
    finally show ?thesis by simp
  qed
qed

lemma visit_solve_flags:
  assumes bad: "\<exists>c \<in> set body. \<exists>m \<in> set (walk c). flagged m"
    and clean: "\<forall>c \<in> set body. \<forall>m \<in> set (walk c). \<not> nested_solve m"
  shows "length (errors l) < length (errors (visit (FunctionDef ''solve'' body) l))"
proof -
  have "length (errors (l\<lparr>in_solve := True\<rparr>))
        < length (errors (fold visit body (l\<lparr>in_solve := True\<rparr>)))"
  proof (rule children_strict [OF _ bad clean])
    fix c and l' :: linter
    assume "c \<in> set body" and "\<exists>m \<in> set (walk c). flagged m"
      and "\<forall>m \<in> set (walk c). \<not> nested_solve m" and "in_solve l'"
    then show "length (errors l') < length (errors (visit c l'))"
      by (intro visit_flags)
  qed simp
  then show ?thesis by simp
qed

lemma lint_rejects:
  assumes "parse code = Parsed (Module stmts)"
    and "FunctionDef ''solve'' body \<in> set stmts"
    and "\<exists>c \<in> set body. \<exists>m \<in> set (walk c). flagged m"
    and "\<forall>c \<in> set body. \<forall>m \<in> set (walk c). \<not> nested_solve m"
  shows "\<exists>errs. errs \<noteq> [] \<and> lint_solve_function parse code = (False, errs)"
proof -
  let ?l = "visit (Module stmts) \<lparr>errors = [], in_solve = False\<rparr>"
  have "length (errors \<lparr>errors = [], in_solve = False\<rparr>)
        < length (errors (fold visit stmts \<lparr>errors = [], in_solve = False\<rparr>))"
    by (rule fold_visit_strict_any [OF assms(2)]) (rule visit_solve_flags [OF assms(3,4)])
  then have "errors ?l \<noteq> []" by auto
  with assms(1) show ?thesis by (simp add: lint_solve_function_def Let_def)
qed

lemma validate_rejects:
  assumes "parse code = Parsed (Module stmts)"
    and "FunctionDef ''solve'' body \<in> set stmts"
    and "\<exists>c \<in> set body. \<exists>m \<in> set (walk c). flagged m"
    and "\<forall>c \<in> set body. \<forall>m \<in> set (walk c). \<not> nested_solve m"
  shows "\<not> fst (validate_solve_code parse code) \<and> snd (validate_solve_code parse code) \<noteq> []"
proof -
  from lint_rejects [where parse = parse and code = code, OF assms] obtain errs where
    "errs \<noteq> []" and "lint_solve_function parse code = (False, errs)" by blast
  then show ?thesis by (simp add: validate_solve_code_def Let_def)
qed

text \<open>
  C6, as stated, fails in its first part: the check never counts the \<open>solve\<close> routines.
  The text \<open>x = 1\<close> defines none and is accepted.
\<close>

theorem exactly_one_solve_counterexample:
  "\<not> (\<forall>parse code. fst (validate_solve_code parse code)
         \<longrightarrow> (\<exists>tree. parse code = Parsed tree \<and> top_level_solves tree = 1))"
proof
  assume a: "\<forall>parse code. fst (validate_solve_code parse code)
         \<longrightarrow> (\<exists>tree. parse code = Parsed tree \<and> top_level_solves tree = 1)"
  have "fst (validate_solve_code (\<lambda>_. Parsed assign_tree) assign_code)"
    by (simp add: assign_code_valid)
  with a have "top_level_solves assign_tree = 1" by fastforce
  then show False by (simp add: top_level_solves_def assign_tree_def)
qed

text \<open>
  Three inputs the amended statement leaves out. The linter has no method for
  \<open>async def\<close>: a coroutine \<open>solve\<close> is not entered, and a coroutine defined inside
  \<open>solve\<close> is not reported. Leaving a \<open>solve\<close> defined inside \<open>solve\<close> clears the flag
  for the rest of the outer body.
\<close>

lemma async_solve_is_not_linted:
  "lint_solve_function (\<lambda>_. Parsed async_import_tree) code = (True, [])"
  by (simp add: lint_solve_function_def async_import_tree_def)

lemma nested_async_def_is_accepted:
  "lint_solve_function (\<lambda>_. Parsed nested_async_tree) code = (True, [])"
  by (simp add: lint_solve_function_def nested_async_tree_def)

lemma inner_solve_ends_linting:
  "lint_solve_function (\<lambda>_. Parsed inner_solve_tree) code = (True, [])"
  by (simp add: lint_solve_function_def inner_solve_tree_def)

text \<open>
  C6, amended. For code whose module has a top-level synchronous \<open>def solve\<close> with no
  function named \<open>solve\<close> defined inside it: a nested synchronous function definition
  (\<open>def\<close>, not \<open>async def\<close>), a class definition, an import, a call by name of \<open>eval\<close>,
  \<open>exec\<close>, \<open>compile\<close>, \<open>__import__\<close>, \<open>open\<close> or \<open>system\<close>, or a \<open>while\<close> loop with no
  \<open>break\<close> beneath it, anywhere in that \<open>solve\<close>, makes \<open>validate_solve_code\<close> fail with
  a non-empty error list, and \<open>run_python_sandbox\<close> returns a sandbox error without
  executing the code or calling a tool.
\<close>

theorem structural_check_rejects:
  assumes "ast_parse env code = Parsed (Module stmts)"
    and "FunctionDef ''solve'' body \<in> set stmts"
    and "\<exists>c \<in> set body. \<exists>m \<in> set (walk c). flagged m"
    and "\<forall>c \<in> set body. \<forall>m \<in> set (walk c). \<not> nested_solve m"
  shows "\<not> fst (validate_solve_code (ast_parse env) code)
       \<and> snd (validate_solve_code (ast_parse env) code) \<noteq> []
       \<and> executed (run_python_sandbox env code d ctx) = False
       \<and> dispatched (gateway (run_python_sandbox env code d ctx)) = []
       \<and> (returned (run_python_sandbox env code d ctx)
            = Returns ''[sandbox error: unsafe code patterns detected]''
          \<or> returned (run_python_sandbox env code d ctx)
            = Returns (''[sandbox error: validation failed - ''
                       @ str_join ''; '' (snd (validate_solve_code (ast_parse env) code)) @ '']''))"
proof -
  note v = validate_rejects [where parse = "ast_parse env" and code = code, OF assms]
  obtain ok errs where e: "validate_solve_code (ast_parse env) code = (ok, errs)"
    by (cases "validate_solve_code (ast_parse env) code")
  with v have "\<not> ok" by simp
  with e v show ?thesis
    by (simp add: run_python_sandbox_def new_SandboxMCP_def)
qed

lemma import_code_safe: "\<not> contains_unsafe_arguments import_code"
  by code_simp

lemma import_code_tools: "findall_tools 0 import_code = []"
  by code_simp

theorem structural_check_rejects_witness:
  "ast_parse (example_env import_tree NoSolve) import_code
     = Parsed (Module [FunctionDef ''solve'' [Other [], Import, Other [Call (Other [Name ''os'']) []]]])
   \<and> Import \<in> set [Other [], Import, Other [Call (Other [Name ''os'']) []]]
   \<and> flagged Import
   \<and> validate_solve_code (ast_parse (example_env import_tree NoSolve)) import_code
       = (False, [''Import statements not allowed in solve()''])
   \<and> run_python_sandbox (example_env import_tree NoSolve) import_code example_dispatcher NoContext
       = \<lparr>returned = Returns ''[sandbox error: validation failed - Import statements not allowed in solve()]'',
          executed = False, gateway = new_SandboxMCP, context_after = NoContext\<rparr>"
proof -
  let ?env = "example_env import_tree NoSolve"
  let ?body = "[Other [], Import, Other [Call (Other [Name ''os'']) []]]"
  have p: "ast_parse ?env import_code = Parsed (Module [FunctionDef ''solve'' ?body])"
    by (simp add: example_env_def import_tree_def)
  have m: "FunctionDef ''solve'' ?body \<in> set [FunctionDef ''solve'' ?body]" by simp
  have f: "flagged Import" by (simp add: flagged_def)
  have b: "\<exists>c \<in> set ?body. \<exists>m \<in> set (walk c). flagged m" using f by simp
  have n: "\<forall>c \<in> set ?body. \<forall>m \<in> set (walk c). \<not> nested_solve m"
    by (simp add: nested_solve_def)
  have l: "lint_solve_function (ast_parse ?env) import_code
           = (False, [''Import statements not allowed in solve()''])"
    by (simp add: lint_solve_function_def example_env_def import_tree_def add_error_def)
  have v: "validate_solve_code (ast_parse ?env) import_code
           = (False, [''Import statements not allowed in solve()''])"
    by (simp add: validate_solve_code_def import_code_safe exceeds_tool_diversity_limit_def
        count_distinct_tools_def has_excessive_repeats_def import_code_tools l)
  from structural_check_rejects [OF p m b n, of example_dispatcher NoContext]
  have "executed (run_python_sandbox ?env import_code example_dispatcher NoContext) = False"
    by simp
  moreover have "run_python_sandbox ?env import_code example_dispatcher NoContext
       = \<lparr>returned = Returns ''[sandbox error: validation failed - Import statements not allowed in solve()]'',
          executed = False, gateway = new_SandboxMCP, context_after = NoContext\<rparr>"
    by (simp add: run_python_sandbox_def import_code_safe v)
  ultimately show ?thesis using p f v by simp
qed

section \<open>Properties of the step-proposal validator\<close>

lemma setdefault_dom: "dom (setdefault kv d) = insert (fst kv) (dom d)"
  by (auto simp: setdefault_def split: option.splits)

lemma fold_setdefault_dom: "dom (fold setdefault kvs d) = fst ` set kvs \<union> dom d"
  by (induction kvs arbitrary: d) (simp_all add: setdefault_dom)

lemma setdefault_value:
  "setdefault kv d k = (case d k of Some v \<Rightarrow> Some v | None \<Rightarrow> if k = fst kv then Some (snd kv) else None)"
  by (simp add: setdefault_def split: option.splits)

lemma fold_setdefault_value:
  "fold setdefault kvs d k = (case d k of Some v \<Rightarrow> Some v | None \<Rightarrow> map_of kvs k)"
proof (induction kvs arbitrary: d)
  case Nil
  show ?case by (simp split: option.splits)
next
  case (Cons kv kvs)
  have "fold setdefault (kv # kvs) d k
        = (case setdefault kv d k of Some v \<Rightarrow> Some v | None \<Rightarrow> map_of kvs k)"
    by (simp add: Cons.IH)
  also have "\<dots> = (case d k of Some v \<Rightarrow> Some v | None \<Rightarrow> map_of (kv # kvs) k)"
    by (cases kv) (simp add: setdefault_def split: option.splits)
  finally show ?case .
qed

lemma required_keys_defaults: "set required_keys = fst ` set defaults"
  by (simp add: required_keys_def defaults_def)

lemma apply_defaults_dom: "set required_keys \<subseteq> dom (apply_defaults d)"
  by (simp add: apply_defaults_def fold_setdefault_dom required_keys_defaults)

lemma apply_defaults_value:
  "apply_defaults d k = (case d k of Some v \<Rightarrow> Some v | None \<Rightarrow> map_of defaults k)"
  by (simp add: apply_defaults_def fold_setdefault_value)

lemma dom_dict_of: "dom (dict_of kvs) = fst ` set kvs"
  by (simp add: dict_of_def dom_map_of_conv_image_fst)

lemma parse_failure_dom: "set required_keys \<subseteq> dom (parse_failure m raw)"
  by (simp add: parse_failure_def dom_dict_of required_keys_def)

lemma server_failure_dom: "set required_keys \<subseteq> dom (server_failure m)"
  by (simp add: server_failure_def dom_dict_of required_keys_def)

lemma parse_failure_hitl:
  "parse_failure m raw ''type'' = Some (JStr ''HUMAN_IN_LOOP'')"
  "parse_failure m raw ''human_in_loop_reason'' = Some (JStr ''PLAN_FAILURE'')"
  by (simp_all add: parse_failure_def dict_of_def)


text \<open>
  C4. Whatever text the model returns (and also when the call ends in a server error),
  \<open>Decision.run\<close> returns a dictionary that holds \<open>step_index\<close>, \<open>description\<close>,
  \<open>type\<close>, \<open>code\<close>, \<open>conclusion\<close> and \<open>plan_text\<close>. When parsing raises, the result is
  the \<open>HUMAN_IN_LOOP\<close> proposal with reason \<open>PLAN_FAILURE\<close>; otherwise every required key
  that the parsed output lacks holds its default (0, \<open>Missing from LLM response\<close>,
  \<open>NOP\<close>, empty code and conclusion, the placeholder plan).
\<close>

theorem decision_run_total:
  "set required_keys \<subseteq> dom (Decision_run lib response)
   \<and> (\<forall>t m. response = Text t \<and> parse_merged lib (strip t) = Inl m \<longrightarrow>
          Decision_run lib response ''type'' = Some (JStr ''HUMAN_IN_LOOP'')
          \<and> Decision_run lib response ''human_in_loop_reason'' = Some (JStr ''PLAN_FAILURE''))
   \<and> (\<forall>t d k. response = Text t \<and> parse_merged lib (strip t) = Inr d \<longrightarrow>
          Decision_run lib response k = (case d k of Some v \<Rightarrow> Some v | None \<Rightarrow> map_of defaults k))"
proof (intro conjI allI impI)
  show "set required_keys \<subseteq> dom (Decision_run lib response)"
  proof (cases response)
    case (ServerError m)
    then show ?thesis by (simp add: Decision_run_def server_failure_dom)
  next
    case (Text t)
    show ?thesis
    proof (cases "parse_merged lib (strip t)")
      case (Inl m)
      with Text show ?thesis by (simp add: Decision_run_def parse_failure_dom)
    next
      case (Inr d)
      with Text show ?thesis by (simp add: Decision_run_def apply_defaults_dom)
    qed
  qed
next
  fix t m
  assume "response = Text t \<and> parse_merged lib (strip t) = Inl m"
  then show "Decision_run lib response ''type'' = Some (JStr ''HUMAN_IN_LOOP'')"
    and "Decision_run lib response ''human_in_loop_reason'' = Some (JStr ''PLAN_FAILURE'')"
    by (simp_all add: Decision_run_def parse_failure_hitl)
next
  fix t d k
  assume "response = Text t \<and> parse_merged lib (strip t) = Inr d"
  then show "Decision_run lib response k = (case d k of Some v \<Rightarrow> Some v | None \<Rightarrow> map_of defaults k)"
    by (simp add: Decision_run_def apply_defaults_value)
qed

theorem decision_run_total_witness:
  "parse_merged example_lib (strip []) = Inl ''No JSON block found''
   \<and> Decision_run example_lib (Text []) ''type'' = Some (JStr ''HUMAN_IN_LOOP'')
   \<and> Decision_run example_lib (Text []) ''human_in_loop_reason'' = Some (JStr ''PLAN_FAILURE'')
   \<and> parse_merged example_lib (strip ''```json {} ```'') = Inr Map.empty
   \<and> Decision_run example_lib (Text ''```json {} ```'') ''step_index'' = Some (JNum 0)
   \<and> Decision_run example_lib (Text ''```json {} ```'') ''description''
       = Some (JStr ''Missing from LLM response'')
   \<and> Decision_run example_lib (Text ''```json {} ```'') ''type'' = Some (JStr ''NOP'')"
proof -
  have s1: "search_block (strip []) = None" by code_simp
  have p1: "parse_merged example_lib (strip []) = Inl ''No JSON block found''"
    by (simp add: parse_merged_def s1)
  have s2: "search_block (strip ''```json {} ```'') = Some ''{}''" by code_simp
  have p2: "parse_merged example_lib (strip ''```json {} ```'') = Inr Map.empty"
    by (simp add: parse_merged_def s2 example_lib_def dict_of_def merge_next_step_def)
  note t1 = decision_run_total [where lib = example_lib and response = "Text []"]
  note t2 = decision_run_total [where lib = example_lib and response = "Text ''```json {} ```''"]
  from t1 p1 have a: "Decision_run example_lib (Text []) ''type'' = Some (JStr ''HUMAN_IN_LOOP'')
      \<and> Decision_run example_lib (Text []) ''human_in_loop_reason'' = Some (JStr ''PLAN_FAILURE'')"
    by blast
  from t2 p2 have b: "Decision_run example_lib (Text ''```json {} ```'') k
      = (case Map.empty k of Some v \<Rightarrow> Some v | None \<Rightarrow> map_of defaults k)" for k
    by blast
  from a p1 p2 b [of "''step_index''"] b [of "''description''"] b [of "''type''"]
  show ?thesis by (simp add: defaults_def)
qed

section \<open>Properties of the control loop\<close>

lemma append_to_last_version_total:
  "total_steps_executed (append_to_last_version s st) = total_steps_executed st"
  by (simp add: append_to_last_version_def allocate_def split: list.splits)

lemma append_to_last_version_executions:
  "executions_made (append_to_last_version s st) = executions_made st"
  by (simp add: append_to_last_version_def allocate_def split: list.splits)

lemma append_to_last_version_last:
  assumes "plan_versions st \<noteq> []"
  shows "steps (last (plan_versions (append_to_last_version s st)))
           = steps (last (plan_versions st)) @ [next_object st]
         \<and> objects (append_to_last_version s st) (next_object st) = s"
proof -
  from assms obtain v before where r: "rev (plan_versions st) = v # before"
    by (cases "rev (plan_versions st)") auto
  then have "plan_versions st = rev before @ [v]" by (metis rev_rev_ident rev.simps(2))
  with r show ?thesis
    by (simp add: append_to_last_version_def allocate_def)
qed

lemma execute_step_same_step:
  "execute_step orc r st = (Some r', st1) \<Longrightarrow> r' = r"
  by (auto simp: execute_step_def Let_def split: if_splits prod.splits)

lemma execute_step_perception:
  assumes "execute_step orc r st = (Some r', st1)"
    and "type (objects st1 r') \<noteq> ''HUMAN_IN_LOOP''"
  shows "perception (objects st1 r') \<noteq> None"
  using assms
  by (auto simp: execute_step_def Let_def update_step_def next_execution_def next_perception_def
      remember_failure_def split: if_splits prod.splits)

lemma evaluate_step_no_error:
  assumes "perception (objects st r) \<noteq> None"
  shows "\<exists>res. evaluate_step orc r st = Inr res"
  using assms by (auto simp: evaluate_step_def split: option.splits)

lemma run_loop_result:
  assumes "total_steps_executed st \<le> MAX_STEPS"
  shows "\<exists>st'. run_loop orc step st = Inr st' \<and> total_steps_executed st' \<le> MAX_STEPS"
  using assms
proof (induction orc step st rule: run_loop.induct)
  case (1 orc st)
  then show ?case by simp
next
  case (2 orc r st)
  show ?case
  proof (cases "MAX_STEPS \<le> total_steps_executed st")
    case True
    with "2.prems" show ?thesis by (simp add: append_to_last_version_total)
  next
    case False
    obtain x st1 where ex: "execute_step orc r st = (x, st1)" by (cases "execute_step orc r st")
    have t1: "total_steps_executed st1 = total_steps_executed st"
      using execute_step_total [of orc r st] ex by simp
    show ?thesis
    proof (cases x)
      case None
      with False ex t1 "2.prems" show ?thesis by simp
    next
      case (Some step_result)
      note sr = Some
      show ?thesis
      proof (cases "type (objects st1 step_result) = ''HUMAN_IN_LOOP''")
        case True
        with False ex sr t1 "2.prems" show ?thesis by simp
      next
        case hl: False
        let ?st = "st1\<lparr>total_steps_executed := total_steps_executed st1 + 1\<rparr>"
        from execute_step_perception [of orc r st step_result st1] ex sr hl
        have "perception (objects ?st step_result) \<noteq> None" by simp
        from evaluate_step_no_error [OF this, of orc] obtain nxt st2 where
          ev: "evaluate_step orc step_result ?st = Inr (nxt, st2)" by fastforce
        from evaluate_step_total [OF ev] t1 False
        have t2: "total_steps_executed st2 \<le> MAX_STEPS" by simp
        have "\<exists>st'. run_loop orc nxt st2 = Inr st' \<and> total_steps_executed st' \<le> MAX_STEPS"
          using "2.IH" [OF False ex [symmetric] sr hl ev refl t2] .
        with False ex sr hl ev show ?thesis by simp
      qed
    qed
  qed
qed

lemma resume_loop_result:
  assumes "total_steps_executed st \<le> MAX_STEPS + 3"
  shows "\<exists>st'. resume_loop orc step st = Inr st' \<and> total_steps_executed st' \<le> MAX_STEPS + 3"
  using assms
proof (induction orc step st rule: resume_loop.induct)
  case (1 orc st)
  then show ?case by simp
next
  case (2 orc r st)
  show ?case
  proof (cases "MAX_STEPS + 3 \<le> total_steps_executed st")
    case True
    with "2.prems" show ?thesis by simp
  next
    case False
    obtain x st1 where ex: "execute_step orc r st = (x, st1)" by (cases "execute_step orc r st")
    have t1: "total_steps_executed st1 = total_steps_executed st"
      using execute_step_total [of orc r st] ex by simp
    show ?thesis
    proof (cases x)
      case None
      with False ex t1 "2.prems" show ?thesis by simp
    next
      case (Some step_result)
      note sr = Some
      show ?thesis
      proof (cases "type (objects st1 step_result) = ''HUMAN_IN_LOOP''")
        case True
        with False ex sr t1 "2.prems" show ?thesis by simp
      next
        case hl: False
        let ?st = "st1\<lparr>total_steps_executed := total_steps_executed st1 + 1\<rparr>"
        from execute_step_perception [of orc r st step_result st1] ex sr hl
        have "perception (objects ?st step_result) \<noteq> None" by simp
        from evaluate_step_no_error [OF this, of orc] obtain nxt st2 where
          ev: "evaluate_step orc step_result ?st = Inr (nxt, st2)" by fastforce
        from evaluate_step_total [OF ev] t1 False
        have t2: "total_steps_executed st2 \<le> MAX_STEPS + 3" by simp
        have "\<exists>st'. resume_loop orc nxt st2 = Inr st' \<and> total_steps_executed st' \<le> MAX_STEPS + 3"
          using "2.IH" [OF False ex [symmetric] sr hl ev refl t2] .
        with False ex sr hl ev show ?thesis by simp
      qed
    qed
  qed
qed

lemma run_result: "\<exists>st'. run orc = Inr st' \<and> total_steps_executed st' \<le> MAX_STEPS"
proof -
  obtain p st where np: "next_perception orc new_session = (p, st)"
    by (cases "next_perception orc new_session")
  then have t: "total_steps_executed st = 0"
    by (auto simp: next_perception_def new_session_def)
  obtain d st1 where nd: "next_decision orc st = (d, st1)" by (cases "next_decision orc st")
  with t have t1: "total_steps_executed st1 = 0" by (auto simp: next_decision_def)
  obtain r st2 where ap: "add_plan_version (out_plan_text d) (create_step d) st1 = (r, st2)"
    by (cases "add_plan_version (out_plan_text d) (create_step d) st1")
  with t1 have t2: "total_steps_executed st2 \<le> MAX_STEPS"
    using add_plan_version_total [of "out_plan_text d" "create_step d" st1] by simp
  from run_loop_result [OF t2, of orc "Some r"] np nd ap t t1 show ?thesis
    by (simp add: run_def mark_complete_def add_plan_version_total)
qed

lemma resume_result:
  assumes "total_steps_executed st \<le> MAX_STEPS + 3"
  shows "\<exists>st'. resume_with_guidance orc st = Inr st' \<and> total_steps_executed st' \<le> MAX_STEPS + 3"
proof -
  obtain d0 st1 where n1: "next_decision orc st = (d0, st1)" by (cases "next_decision orc st")
  obtain d st2 where n2: "next_decision orc st1 = (d, st2)" by (cases "next_decision orc st1")
  from n1 n2 assms have t2: "total_steps_executed st2 \<le> MAX_STEPS + 3"
    by (auto simp: next_decision_def)
  obtain r st3 where ap: "add_plan_version (out_plan_text d) (create_step d) st2 = (r, st3)"
    by (cases "add_plan_version (out_plan_text d) (create_step d) st2")
  with t2 have t3: "total_steps_executed (st3\<lparr>session_memory := []\<rparr>) \<le> MAX_STEPS + 3"
    using add_plan_version_total [of "out_plan_text d" "create_step d" st2] by simp
  from resume_loop_result [OF t3, of orc "Some r"] n1 n2 ap t2 show ?thesis
    by (simp add: resume_with_guidance_def)
qed






text \<open>
  In \<open>run\<close> no retry count ever reaches \<open>MAX_RETRIES\<close>: a step is executed once, and
  the step that follows a failure is a new one with retry count 0.
\<close>

lemma execute_step_other:
  "q \<noteq> r \<Longrightarrow> objects (snd (execute_step orc r st)) q = objects st q"
  by (simp add: execute_step_def Let_def update_step_def next_execution_def next_perception_def
      remember_failure_def mark_complete_def split: prod.splits)

lemma execute_step_own:
  "retries (objects (snd (execute_step orc r st)) r) \<le> retries (objects st r) + 1"
  by (simp add: execute_step_def Let_def update_step_def next_execution_def next_perception_def
      remember_failure_def mark_complete_def split: prod.splits)

lemma execute_step_retries:
  assumes "\<forall>q. retries (objects st q) \<le> 1" and "retries (objects st r) = 0"
  shows "\<forall>q. retries (objects (snd (execute_step orc r st)) q) \<le> 1"
proof
  fix q
  show "retries (objects (snd (execute_step orc r st)) q) \<le> 1"
  proof (cases "q = r")
    case True
    with execute_step_own [of orc r st] assms(2) show ?thesis by simp
  next
    case False
    with execute_step_other [of q r orc st] assms(1) show ?thesis by simp
  qed
qed

lemma replan_objects:
  "retries (objects (snd (replan orc st)) (next_object st)) = 0
   \<and> (\<forall>q. q \<noteq> next_object st \<longrightarrow> objects (snd (replan orc st)) q = objects st q)
   \<and> fst (replan orc st) = Some (next_object st)"
proof (cases "out_type (decision_run orc (decisions_made st)) = ''HUMAN_IN_LOOP''")
  case True
  then show ?thesis
    by (simp add: replan_def next_decision_def add_plan_version_def allocate_def create_step_def)
next
  case False
  then show ?thesis
    by (simp add: replan_def next_decision_def add_plan_version_def allocate_def create_step_def)
qed

lemma replan_retries:
  assumes "\<forall>q. retries (objects st q) \<le> 1"
  shows "(\<forall>q. retries (objects (snd (replan orc st)) q) \<le> 1)
         \<and> (\<forall>n. fst (replan orc st) = Some n \<longrightarrow> retries (objects (snd (replan orc st)) n) = 0)"
proof (intro conjI allI impI)
  fix q
  show "retries (objects (snd (replan orc st)) q) \<le> 1"
  proof (cases "q = next_object st")
    case True
    with replan_objects [of orc st] show ?thesis by simp
  next
    case False
    with replan_objects [of orc st] assms show ?thesis by simp
  qed
next
  fix n
  assume "fst (replan orc st) = Some n"
  with replan_objects [of orc st] show "retries (objects (snd (replan orc st)) n) = 0" by simp
qed

lemma evaluate_step_cases:
  assumes "evaluate_step orc r st = Inr (nxt, st')"
  shows "(nxt = None \<and> objects st' = objects st)
         \<or> (nxt = fst (replan orc st) \<and> st' = snd (replan orc st))"
proof -
  from assms obtain p where p: "perception (objects st r) = Some p"
    by (cases "perception (objects st r)") (simp_all add: evaluate_step_def)
  show ?thesis
  proof (cases "original_goal_achieved p")
    case True
    with assms p show ?thesis by (simp add: evaluate_step_def mark_complete_def) auto
  next
    case False
    with assms p have "(nxt, st') = get_next_step orc r st \<or> (nxt, st') = replan orc st"
      by (auto simp: evaluate_step_def split: if_splits)
    then have "(nxt, st') = (None, st) \<or> (nxt, st') = replan orc st"
      by (auto simp: get_next_step_def Let_def split: if_splits)
    then show ?thesis by (metis fst_conv snd_conv)
  qed
qed

lemma evaluate_step_retries:
  assumes "\<forall>q. retries (objects st q) \<le> 1" and "evaluate_step orc r st = Inr (nxt, st')"
  shows "(\<forall>q. retries (objects st' q) \<le> 1) \<and> (\<forall>n. nxt = Some n \<longrightarrow> retries (objects st' n) = 0)"
  using evaluate_step_cases [OF assms(2)] replan_retries [OF assms(1), of orc] assms(1)
  by auto

lemma run_loop_retries:
  assumes "\<forall>q. retries (objects st q) \<le> 1" and "\<forall>r. step = Some r \<longrightarrow> retries (objects st r) = 0"
    and "run_loop orc step st = Inr st'"
  shows "\<forall>q. retries (objects st' q) \<le> 1"
  using assms
proof (induction orc step st rule: run_loop.induct)
  case (1 orc st)
  then show ?case by simp
next
  case (2 orc r st)
  show ?case
  proof (cases "MAX_STEPS \<le> total_steps_executed st")
    case True
    with "2.prems" show ?thesis
      by (auto simp: append_to_last_version_def allocate_def max_steps_step_def split: list.splits)
  next
    case False
    obtain x st1 where ex: "execute_step orc r st = (x, st1)" by (cases "execute_step orc r st")
    from execute_step_retries [of st r orc] "2.prems"(1,2) ex
    have r1: "\<forall>q. retries (objects st1 q) \<le> 1" by simp
    show ?thesis
    proof (cases x)
      case None
      with False ex r1 "2.prems"(3) show ?thesis by simp
    next
      case (Some step_result)
      note sr = Some
      show ?thesis
      proof (cases "type (objects st1 step_result) = ''HUMAN_IN_LOOP''")
        case True
        with False ex sr r1 "2.prems"(3) show ?thesis by simp
      next
        case hl: False
        let ?st = "st1\<lparr>total_steps_executed := total_steps_executed st1 + 1\<rparr>"
        from False ex sr hl "2.prems"(3) obtain nxt st2 where
          ev: "evaluate_step orc step_result ?st = Inr (nxt, st2)"
          and rl: "run_loop orc nxt st2 = Inr st'"
          by (auto split: sum.splits)
        from r1 have "\<forall>q. retries (objects ?st q) \<le> 1" by simp
        from evaluate_step_retries [OF this ev]
        have a: "\<forall>q. retries (objects st2 q) \<le> 1"
          and b: "\<forall>n. nxt = Some n \<longrightarrow> retries (objects st2 n) = 0" by simp_all
        show ?thesis
          using "2.IH" [OF False ex [symmetric] sr hl ev refl a b rl] .
      qed
    qed
  qed
qed

lemma run_retries_at_most_one:
  assumes "run orc = Inr s"
  shows "retries (objects s q) \<le> 1 \<and> retries (objects s q) < MAX_RETRIES"
proof -
  obtain p st where np: "next_perception orc new_session = (p, st)"
    by (cases "next_perception orc new_session")
  then have o: "objects st = (\<lambda>_. blank_step)"
    by (auto simp: next_perception_def new_session_def)
  obtain d st1 where nd: "next_decision orc st = (d, st1)" by (cases "next_decision orc st")
  with o have o1: "objects st1 = (\<lambda>_. blank_step)" by (auto simp: next_decision_def)
  have "\<forall>q. retries (objects s q) \<le> 1"
  proof (cases "original_goal_achieved p")
    case True
    with assms np o show ?thesis by (auto simp: run_def mark_complete_def blank_step_def)
  next
    case False
    show ?thesis
    proof (cases "out_type d = ''HUMAN_IN_LOOP''")
      case True
      with assms np nd False o1 show ?thesis
        by (auto simp: run_def add_plan_version_def allocate_def create_step_def blank_step_def)
    next
      case nh: False
      obtain r st2 where ap: "add_plan_version (out_plan_text d) (create_step d) st1 = (r, st2)"
        by (cases "add_plan_version (out_plan_text d) (create_step d) st1")
      with o1 have a: "\<forall>q. retries (objects st2 q) \<le> 1"
        and b: "\<forall>r'. Some r = Some r' \<longrightarrow> retries (objects st2 r') = 0"
        by (auto simp: add_plan_version_def allocate_def create_step_def blank_step_def)
      from assms np nd False nh ap have "run_loop orc (Some r) st2 = Inr s"
        by (simp add: run_def)
      from run_loop_retries [OF a b this] show ?thesis .
    qed
  qed
  then have "retries (objects s q) \<le> 1" by simp
  then show ?thesis by (simp add: MAX_RETRIES_def)
qed


lemmas agent_defs =
  run_def resume_with_guidance_def new_session_def next_perception_def next_decision_def
  failing_collaborators_def escalating_collaborators_def code_decision_def add_plan_version_def
  allocate_def create_step_def execute_step_def update_step_def next_execution_def
  remember_failure_def evaluate_step_def replan_def get_next_step_def mark_complete_def
  MAX_STEPS_def MAX_RETRIES_def GLOBAL_PREVIOUS_FAILURE_STEPS_def append_to_last_version_def
  max_steps_step_def exhausted_session_def Let_def

text \<open>
  C2. With a tool that fails at every call, no step is attempted a second time: a failed
  step gets retry count 1 and is replaced by the step of a new plan. After three steps the
  session stops at the step budget, with reason \<open>MAX_STEPS_EXCEEDED\<close>; the branch for
  \<open>MAX_RETRIES_EXCEEDED\<close> is never reached.
\<close>

theorem failing_tool_session:
  "case run failing_collaborators of
     Inl e \<Rightarrow> False
   | Inr s \<Rightarrow>
       total_steps_executed s = 3 \<and> executions_made s = 3
       \<and> map steps (plan_versions s) = [[0], [1], [2], [3, 4]]
       \<and> map (\<lambda>r. (type (objects s r), retries (objects s r), human_in_loop_reason (objects s r)))
             [0, 1, 2, 3, 4]
           = [(''CODE'', 1, None), (''CODE'', 1, None), (''CODE'', 1, None), (''CODE'', 0, None),
              (''HUMAN_IN_LOOP'', 0, Some ''MAX_STEPS_EXCEEDED'')]"
  by (simp add: agent_defs)

lemma escalating_tool_session:
  "case run escalating_collaborators of
     Inl e \<Rightarrow> False
   | Inr s \<Rightarrow>
       total_steps_executed s = 0 \<and> executions_made s = 1
       \<and> map steps (plan_versions s) = [[0]]
       \<and> (type (objects s 0), retries (objects s 0), human_in_loop_reason (objects s 0))
           = (''HUMAN_IN_LOOP'', 1, Some ''TOOL_FAILURE'')"
  by (simp add: agent_defs)

text \<open>
  C3, as stated, fails for a resumed session: \<open>resume_with_guidance\<close> runs the loop
  against the budget \<open>MAX_STEPS + 3\<close> and, when that is used up, stops without adding a
  step. With a tool that always fails, \<open>run\<close> ends at 3 executed steps and the resumed
  session at 6, its last step a pending \<open>CODE\<close> step.
\<close>

lemma failing_resumed_session:
  "case run failing_collaborators of
     Inl e \<Rightarrow> False
   | Inr s \<Rightarrow>
      (case resume_with_guidance failing_collaborators s of
         Inl e \<Rightarrow> False
       | Inr s' \<Rightarrow>
           total_steps_executed s' = 6
           \<and> map steps (plan_versions s') = [[0], [1], [2], [3, 4], [5], [6], [7], [8]]
           \<and> (type (objects s' 8), status (objects s' 8)) = (''CODE'', ''pending''))"
  by (simp add: agent_defs)

theorem steps_executed_bound_counterexample:
  "\<not> (\<forall>orc s s'. run orc = Inr s \<and> resume_with_guidance orc s = Inr s'
         \<longrightarrow> total_steps_executed s' \<le> MAX_STEPS)"
proof
  assume a: "\<forall>orc s s'. run orc = Inr s \<and> resume_with_guidance orc s = Inr s'
         \<longrightarrow> total_steps_executed s' \<le> MAX_STEPS"
  from failing_resumed_session obtain s s' where
    "run failing_collaborators = Inr s" and "resume_with_guidance failing_collaborators s = Inr s'"
    and "total_steps_executed s' = 6"
    by (auto split: sum.splits)
  with a show False by (fastforce simp: MAX_STEPS_def)
qed

text \<open>
  C3, amended. In \<open>run\<close> the counter of executed steps never exceeds \<open>MAX_STEPS\<close>; when
  it has reached \<open>MAX_STEPS\<close> before a step starts, the loop appends to the last plan
  version a \<open>HUMAN_IN_LOOP\<close> step with reason \<open>MAX_STEPS_EXCEEDED\<close> and stops without
  executing the step. In \<open>resume_with_guidance\<close> the bound is \<open>MAX_STEPS + 3\<close>, and at
  that bound the loop stops without executing the step and without adding one.
\<close>

theorem step_budget:
  "(\<exists>s. run orc = Inr s \<and> total_steps_executed s \<le> MAX_STEPS)
   \<and> (\<forall>st r. MAX_STEPS \<le> total_steps_executed st \<and> plan_versions st \<noteq> [] \<longrightarrow>
         (\<exists>s. run_loop orc (Some r) st = Inr s
            \<and> steps (last (plan_versions s)) = steps (last (plan_versions st)) @ [next_object st]
            \<and> type (objects s (next_object st)) = ''HUMAN_IN_LOOP''
            \<and> human_in_loop_reason (objects s (next_object st)) = Some ''MAX_STEPS_EXCEEDED''
            \<and> executions_made s = executions_made st
            \<and> total_steps_executed s = total_steps_executed st))
   \<and> (\<forall>st. total_steps_executed st \<le> MAX_STEPS + 3 \<longrightarrow>
         (\<exists>s. resume_with_guidance orc st = Inr s \<and> total_steps_executed s \<le> MAX_STEPS + 3))
   \<and> (\<forall>st r. MAX_STEPS + 3 \<le> total_steps_executed st \<longrightarrow> resume_loop orc (Some r) st = Inr st)"
proof (intro conjI allI impI)
  show "\<exists>s. run orc = Inr s \<and> total_steps_executed s \<le> MAX_STEPS" by (rule run_result)
next
  fix st :: agent_state and r
  assume a: "MAX_STEPS \<le> total_steps_executed st \<and> plan_versions st \<noteq> []"
  let ?s = "append_to_last_version (max_steps_step (index (objects st r))) st"
  from a have "run_loop orc (Some r) st = Inr ?s" by simp
  moreover from a append_to_last_version_last [of st "max_steps_step (index (objects st r))"]
  have "steps (last (plan_versions ?s)) = steps (last (plan_versions st)) @ [next_object st]"
    and "objects ?s (next_object st) = max_steps_step (index (objects st r))" by simp_all
  ultimately show "\<exists>s. run_loop orc (Some r) st = Inr s
            \<and> steps (last (plan_versions s)) = steps (last (plan_versions st)) @ [next_object st]
            \<and> type (objects s (next_object st)) = ''HUMAN_IN_LOOP''
            \<and> human_in_loop_reason (objects s (next_object st)) = Some ''MAX_STEPS_EXCEEDED''
            \<and> executions_made s = executions_made st
            \<and> total_steps_executed s = total_steps_executed st"
    by (simp add: max_steps_step_def append_to_last_version_total append_to_last_version_executions)
next
  fix st :: agent_state
  assume "total_steps_executed st \<le> MAX_STEPS + 3"
  then show "\<exists>s. resume_with_guidance orc st = Inr s \<and> total_steps_executed s \<le> MAX_STEPS + 3"
    by (rule resume_result)
next
  fix st :: agent_state and r
  assume "MAX_STEPS + 3 \<le> total_steps_executed st"
  then show "resume_loop orc (Some r) st = Inr st" by simp
qed

theorem step_budget_witness:
  "MAX_STEPS \<le> total_steps_executed exhausted_session \<and> plan_versions exhausted_session \<noteq> []
   \<and> (\<exists>s. run_loop failing_collaborators (Some 0) exhausted_session = Inr s
        \<and> steps (last (plan_versions s)) = [0, 1]
        \<and> human_in_loop_reason (objects s 1) = Some ''MAX_STEPS_EXCEEDED''
        \<and> executions_made s = 0)
   \<and> (\<exists>s. run failing_collaborators = Inr s \<and> total_steps_executed s \<le> MAX_STEPS)
   \<and> total_steps_executed exhausted_session \<le> MAX_STEPS + 3
   \<and> (\<exists>s. resume_with_guidance failing_collaborators exhausted_session = Inr s
        \<and> total_steps_executed s \<le> MAX_STEPS + 3)"
proof -
  have h1: "MAX_STEPS \<le> total_steps_executed exhausted_session \<and> plan_versions exhausted_session \<noteq> []"
    by (simp add: agent_defs)
  have h2: "total_steps_executed exhausted_session \<le> MAX_STEPS + 3" by (simp add: agent_defs)
  have e: "steps (last (plan_versions exhausted_session)) = [0]"
    "next_object exhausted_session = 1" "executions_made exhausted_session = 0"
    by (simp_all add: agent_defs)
  note t = step_budget [where orc = failing_collaborators]
  from t h1 have "\<exists>s. run_loop failing_collaborators (Some 0) exhausted_session = Inr s
        \<and> steps (last (plan_versions s))
            = steps (last (plan_versions exhausted_session)) @ [next_object exhausted_session]
        \<and> type (objects s (next_object exhausted_session)) = ''HUMAN_IN_LOOP''
        \<and> human_in_loop_reason (objects s (next_object exhausted_session)) = Some ''MAX_STEPS_EXCEEDED''
        \<and> executions_made s = executions_made exhausted_session
        \<and> total_steps_executed s = total_steps_executed exhausted_session"
    by blast
  then have a: "\<exists>s. run_loop failing_collaborators (Some 0) exhausted_session = Inr s
        \<and> steps (last (plan_versions s)) = [0, 1]
        \<and> human_in_loop_reason (objects s 1) = Some ''MAX_STEPS_EXCEEDED''
        \<and> executions_made s = 0"
    unfolding e by auto
  from t have b: "\<exists>s. run failing_collaborators = Inr s \<and> total_steps_executed s \<le> MAX_STEPS"
    by blast
  from t h2 have c: "\<exists>s. resume_with_guidance failing_collaborators exhausted_session = Inr s
        \<and> total_steps_executed s \<le> MAX_STEPS + 3"
    by blast
  from h1 h2 a b c show ?thesis by blast
qed

end
